theory Spec2Isabelle
  imports Complex_Main
begin

section \<open>Python strings\<close>

text \<open>
  Python \<open>str\<close> values are modelled as \<open>string\<close> (ASCII characters). The helpers below
  are the built-in string methods the repository calls, each with Python's semantics on
  ASCII text.
\<close>

definition newline :: char where
  "newline = CHR 0x0A"

definition space :: char where
  "space = CHR 0x20"

definition is_space :: "char \<Rightarrow> bool" where
  \<comment> \<open>\<open>str.isspace\<close> on one ASCII character: tab, LF, VT, FF, CR, FS, GS, RS, US, space.\<close>
  "is_space c = (let n = (of_char c :: nat) in (9 \<le> n \<and> n \<le> 13) \<or> (28 \<le> n \<and> n \<le> 32))"

definition py_strip :: "string \<Rightarrow> string" where
  \<comment> \<open>\<open>s.strip()\<close>: leading and trailing whitespace removed.\<close>
  "py_strip s = rev (dropWhile is_space (rev (dropWhile is_space s)))"

definition strip_newlines :: "string \<Rightarrow> string" where
  \<comment> \<open>\<open>s.strip("\n")\<close>: leading and trailing newline characters removed.\<close>
  "strip_newlines s = rev (dropWhile (\<lambda>c. c = newline) (rev (dropWhile (\<lambda>c. c = newline) s)))"


fun join :: "string \<Rightarrow> string list \<Rightarrow> string" where
  \<comment> \<open>\<open>sep.join(xs)\<close>\<close>
  "join sep [] = []"
| "join sep [x] = x"
| "join sep (x # y # ys) = x @ sep @ join sep (y # ys)"

fun split_on :: "char \<Rightarrow> string \<Rightarrow> string list" where
  \<comment> \<open>\<open>s.split(c)\<close> for a one-character separator: never empty, keeps empty pieces.\<close>
  "split_on c [] = [[]]"
| "split_on c (x # xs) =
     (if x = c then [] # split_on c xs
      else (case split_on c xs of [] \<Rightarrow> [[x]] | l # ls \<Rightarrow> (x # l) # ls))"



definition startswith :: "string \<Rightarrow> string \<Rightarrow> bool" where
  \<comment> \<open>\<open>s.startswith(p)\<close>\<close>
  "startswith s p = (take (length p) s = p)"

definition endswith :: "string \<Rightarrow> string \<Rightarrow> bool" where
  \<comment> \<open>\<open>s.endswith(p)\<close>\<close>
  "endswith s p = (length p \<le> length s \<and> drop (length s - length p) s = p)"

fun py_in :: "string \<Rightarrow> string \<Rightarrow> bool" where
  \<comment> \<open>\<open>p in s\<close> for strings: \<open>p\<close> occurs in \<open>s\<close> as a contiguous substring.\<close>
  "py_in p [] = (p = [])"
| "py_in p (c # cs) = (startswith (c # cs) p \<or> py_in p cs)"

fun sub_spaces :: "string \<Rightarrow> string" where
  \<comment> \<open>\<open>re.sub(r" +", " ", s)\<close>: every maximal run of spaces becomes one space.\<close>
  "sub_spaces [] = []"
| "sub_spaces [c] = [c]"
| "sub_spaces (c # d # cs) =
     (if c = space \<and> d = space then sub_spaces (d # cs) else c # sub_spaces (d # cs))"

section \<open>Source cleaner (\<open>tex2beam/utils.py\<close>)\<close>

definition clean_texfile :: "string \<Rightarrow> string" where
  "clean_texfile texfile =
     (let tmp = split_on newline texfile;
          tmp = map py_strip (filter (\<lambda>line. \<not> startswith line ''%'') tmp);
          tmp = filter (\<lambda>line. length line > 0) tmp;
          tmp = map sub_spaces tmp
      in join [newline] tmp)"

section \<open>Element matcher and scores (\<open>tex2beam/metrics/utils.py\<close>)\<close>

text \<open>
  Scores are Python floats; they are modelled by exact real numbers. A match is the
  dictionary \<open>{"candidate": {"element", "index"}, "reference": {"element", "index"},
  "score": {"precision", "recall", "f1"}}\<close> that \<open>match_elements\<close> builds.
\<close>

record elem_ref =
  element :: string
  index :: int

record score_triple =
  precision :: real
  recall :: real
  f1 :: real

record match_record =
  candidate :: elem_ref
  reference :: elem_ref
  score :: score_triple

datatype error = IndexError | KeyError | TypeError | AttributeError | ValueError | FileNotFoundError

definition round_half_even :: "real \<Rightarrow> int" where
  "round_half_even y =
     (let f = \<lfloor>y\<rfloor>; r = y - of_int f
      in if r < 1 / 2 then f else if 1 / 2 < r then f + 1 else if even f then f else f + 1)"

definition py_round :: "real \<Rightarrow> nat \<Rightarrow> real" where
  \<comment> \<open>\<open>round(x, decimals)\<close> for \<open>decimals \<ge> 0\<close>: to the nearest multiple of \<open>10 ^ -decimals\<close>,
      ties to even.\<close>
  "py_round x decimals = of_int (round_half_even (x * 10 ^ decimals)) / 10 ^ decimals"

definition fromkeys :: "'a list \<Rightarrow> 'a list" where
  \<comment> \<open>\<open>list(dict.fromkeys(xs))\<close>: a key is inserted when first seen and keeps that place.\<close>
  "fromkeys xs = fold (\<lambda>x acc. if x \<in> set acc then acc else acc @ [x]) xs []"

definition list_get :: "'a list \<Rightarrow> nat \<Rightarrow> error + 'a" where
  \<comment> \<open>\<open>xs[k]\<close> for \<open>k \<ge> 0\<close>\<close>
  "list_get xs k = (if k < length xs then Inr (xs ! k) else Inl IndexError)"

text \<open>
  The similarity scorer \<open>calculate_bert_score(predictions, references)\<close> is an external
  model; it is a parameter. Its result is the dictionary of three score lists.
\<close>

record bert_result =
  bs_precision :: "real list"
  bs_recall :: "real list"
  bs_f1 :: "real list"

type_synonym scorer = "string list \<Rightarrow> string list \<Rightarrow> bert_result"

type_synonym permutation = "string \<times> int \<times> string \<times> int"

definition permutations_of :: "string list \<Rightarrow> string list \<Rightarrow> permutation list" where
  "permutations_of candidate_elements reference_elements =
     concat (map (\<lambda>(i, ct). map (\<lambda>(j, rt). (ct, int i, rt, int j)) (enumerate 0 reference_elements))
                 (enumerate 0 candidate_elements))"

definition mk_match ::
  "nat \<Rightarrow> string \<Rightarrow> int \<Rightarrow> string \<Rightarrow> int \<Rightarrow> real \<Rightarrow> real \<Rightarrow> real \<Rightarrow> match_record" where
  \<comment> \<open>The record that the inner function \<open>append\<close> adds to \<open>matches\<close>.\<close>
  "mk_match decimals cand i ref j p r f =
     \<lparr>candidate = \<lparr>element = cand, index = i\<rparr>,
      reference = \<lparr>element = ref, index = j\<rparr>,
      score = \<lparr>precision = py_round p decimals, recall = py_round r decimals,
               f1 = py_round f decimals\<rparr>\<rparr>"

fun match_loop ::
  "bert_result \<Rightarrow> real \<Rightarrow> nat \<Rightarrow> nat \<Rightarrow> permutation list \<Rightarrow> match_record list
     \<Rightarrow> error + match_record list" where
  "match_loop bertscore f1_threshold decimals k [] matches = Inr matches"
| "match_loop bertscore f1_threshold decimals k ((cand, i, ref, j) # rest) matches =
     (if cand = ref then
        match_loop bertscore f1_threshold decimals (Suc k) rest
          (matches @ [mk_match decimals cand i ref j 1 1 1])
      else
        (case list_get (bs_precision bertscore) k of
           Inl e \<Rightarrow> Inl e
         | Inr p \<Rightarrow>
        (case list_get (bs_recall bertscore) k of
           Inl e \<Rightarrow> Inl e
         | Inr r \<Rightarrow>
        (case list_get (bs_f1 bertscore) k of
           Inl e \<Rightarrow> Inl e
         | Inr f \<Rightarrow>
             if f1_threshold \<le> f then
               match_loop bertscore f1_threshold decimals (Suc k) rest
                 (matches @ [mk_match decimals cand i ref j p r f])
             else match_loop bertscore f1_threshold decimals (Suc k) rest matches))))"

definition match_elements ::
  "scorer \<Rightarrow> string list \<Rightarrow> string list \<Rightarrow> real \<Rightarrow> nat
     \<Rightarrow> (string list \<times> string list) list \<times> (error + match_record list)" where
  \<comment> \<open>Returns the scorer calls made, in order, and the function's result.\<close>
  "match_elements calculate_bert_score candidate_elements reference_elements f1_threshold decimals =
     (let candidate_elements = fromkeys candidate_elements;
          reference_elements = fromkeys reference_elements;
          permutations = permutations_of candidate_elements reference_elements;
          predictions = map (\<lambda>(cand, _, ref, _). cand) permutations;
          references = map (\<lambda>(cand, _, ref, _). ref) permutations;
          bertscore = calculate_bert_score predictions references
      in ([(predictions, references)],
          match_loop bertscore f1_threshold decimals 0 permutations []))"

text \<open>
  \<open>scipy.stats.kendalltau(x, y).statistic\<close> is a parameter of the rank correlation;
  \<open>None\<close> stands for NaN.
\<close>

definition calculate_kendall_tau ::
  "(int list \<Rightarrow> int list \<Rightarrow> real option) \<Rightarrow> match_record list \<Rightarrow> nat \<Rightarrow> real" where
  "calculate_kendall_tau kendalltau matches decimals =
     (if length matches = 1 then 1
      else
        (let candidate_indices = map (\<lambda>m. index (candidate m)) matches;
             reference_indices = map (\<lambda>m. index (reference m)) matches
         in case kendalltau candidate_indices reference_indices of
              None \<Rightarrow> 0
            | Some kendall_tau \<Rightarrow> py_round kendall_tau decimals))"

text \<open>
  Kendall's tau-b, the statistic \<open>kendalltau\<close> computes by default: over all pairs of
  positions, concordant minus discordant pairs, divided by the geometric mean of the
  numbers of pairs not tied in \<open>x\<close> and not tied in \<open>y\<close>; undefined when either is zero.
\<close>

definition position_pairs :: "nat \<Rightarrow> (nat \<times> nat) list" where
  "position_pairs n = concat (map (\<lambda>i. map (\<lambda>j. (i, j)) [Suc i..<n]) [0..<n])"

definition kendall_tau_b :: "int list \<Rightarrow> int list \<Rightarrow> real option" where
  "kendall_tau_b x y =
     (let ps = position_pairs (min (length x) (length y));
          con = length (filter (\<lambda>(i, j). 0 < (x ! i - x ! j) * (y ! i - y ! j)) ps);
          dis = length (filter (\<lambda>(i, j). (x ! i - x ! j) * (y ! i - y ! j) < 0) ps);
          nx = length (filter (\<lambda>(i, j). x ! i \<noteq> x ! j) ps);
          ny = length (filter (\<lambda>(i, j). y ! i \<noteq> y ! j) ps)
      in if nx = 0 \<or> ny = 0 then None
         else Some ((real con - real dis) / sqrt (real nx * real ny)))"

definition py_set_len :: "'a list \<Rightarrow> nat" where
  \<comment> \<open>\<open>len(set(xs))\<close>\<close>
  "py_set_len xs = length (remdups xs)"

definition calculate_confusion_matrix ::
  "string list \<Rightarrow> string list \<Rightarrow> match_record list \<Rightarrow> (int \<times> int) \<times> (int \<times> int)" where
  \<comment> \<open>The result is the array \<open>[[TP, FP], [FN, TN]]\<close>.\<close>
  "calculate_confusion_matrix candidate_titles reference_titles matches =
     (let TN = 0;
          TP = int (length matches);
          FP = int (py_set_len candidate_titles)
             - int (py_set_len (map (\<lambda>m. element (candidate m)) matches));
          FN = int (py_set_len reference_titles)
             - int (py_set_len (map (\<lambda>m. element (reference m)) matches))
      in ((TP, FP), (FN, TN)))"

section \<open>The markup tree\<close>

text \<open>
  The parsed document is a TexSoup tree, an external library. A tree node is either a
  string token or a \<open>TexNode\<close> with its object identity, its name, the \<open>.string\<close> of each
  of its arguments (\<open>node.args[k].string\<close>) and its contents (what iterating over the
  node yields). The derived attributes \<open>node.text\<close>, \<open>node.string\<close>, \<open>str(node)\<close> and the
  parser \<open>TexSoup(source)\<close> are parameters, collected in a record \<open>texlib\<close>.
\<close>

datatype pyval = PNone | PStr string


datatype tex =
    Tok string
  | Node (ident: nat) (nname: string) (nargs: "pyval list") (contents: "tex list")

record texlib =
  lib_text :: "tex \<Rightarrow> string list"
  lib_string :: "tex \<Rightarrow> pyval"
  lib_str :: "tex \<Rightarrow> string"
  lib_parse :: "string \<Rightarrow> tex"

definition is_named :: "string \<Rightarrow> tex \<Rightarrow> bool" where
  \<comment> \<open>\<open>isinstance(node, TexNode) and node.name == name\<close>\<close>
  "is_named name node = (case node of Tok s \<Rightarrow> False | Node i n a cs \<Rightarrow> n = name)"

definition has_ident :: "nat \<Rightarrow> tex \<Rightarrow> bool" where
  "has_ident i node = (case node of Tok s \<Rightarrow> False | Node j n a cs \<Rightarrow> j = i)"

definition ends_or_starts_with :: "string \<Rightarrow> tex list \<Rightarrow> bool" where
  \<comment> \<open>The list is empty, or its first element is a node called \<open>name\<close>.\<close>
  "ends_or_starts_with name xs = (case xs of [] \<Rightarrow> True | x # rest \<Rightarrow> is_named name x)"

fun descendants :: "tex \<Rightarrow> tex list" where
  \<comment> \<open>Modelled from the spec: \<open>node.descendants\<close>, every node and token below \<open>node\<close> in
      document order (depth-first, pre-order).\<close>
  "descendants (Tok s) = []"
| "descendants (Node i n a cs) = concat (map (\<lambda>c. c # descendants c) cs)"

definition find_all :: "string \<Rightarrow> tex \<Rightarrow> tex list" where
  \<comment> \<open>Modelled from the spec: \<open>node.find_all(name)\<close>, the descendants called \<open>name\<close>, as a
      list in document order.\<close>
  "find_all name node = filter (is_named name) (descendants node)"

definition find_tex :: "string \<Rightarrow> tex \<Rightarrow> tex option" where
  \<comment> \<open>Modelled from the spec: \<open>node.find(name)\<close> (also written \<open>node.name\<close>), the first such
      descendant or \<open>None\<close>.\<close>
  "find_tex name node = (case find_all name node of [] \<Rightarrow> None | x # xs \<Rightarrow> Some x)"

fun delete_id :: "nat \<Rightarrow> tex \<Rightarrow> tex" where
  \<comment> \<open>Modelled from the spec: \<open>node.delete()\<close> for the node whose identity is \<open>i\<close>; the node
      leaves its parent's contents, in place.\<close>
  "delete_id i (Tok s) = Tok s"
| "delete_id i (Node j n a cs) =
     Node j n a (filter (\<lambda>c. \<not> has_ident i c) (map (delete_id i) cs))"

fun replace_id :: "nat \<Rightarrow> tex list \<Rightarrow> tex \<Rightarrow> tex" where
  \<comment> \<open>Modelled from the spec: \<open>node.replace_with(*new)\<close> for the node whose identity is \<open>i\<close>;
      the nodes \<open>new\<close> take its place in its parent's contents.\<close>
  "replace_id i new (Tok s) = Tok s"
| "replace_id i new (Node j n a cs) =
     Node j n a (concat (map (\<lambda>c. if has_ident i c then new else [replace_id i new c]) cs))"

section \<open>Document model (\<open>tex2beam/classes/latex_base.py\<close>)\<close>







definition title :: "texlib \<Rightarrow> tex \<Rightarrow> string option" where
  \<comment> \<open>\<open>.text\<close> is a list; its first string is the title. On an empty list \<open>title[0]\<close> raises
      inside the second \<open>try\<close> and the title stays \<open>[]\<close>, which is falsy like \<open>None\<close> and
      is \<open>None\<close> here.\<close>
  "title L soup =
     (let first = (\<lambda>node. case lib_text L node of [] \<Rightarrow> None | t # ts \<Rightarrow> Some t)
      in case find_tex ''title'' soup of
           Some node \<Rightarrow> first node
         | None \<Rightarrow>
        (case find_tex ''icmltitle'' soup of
           Some node \<Rightarrow> first node
         | None \<Rightarrow>
        (case find_tex ''icmltitlerunning'' soup of
           Some node \<Rightarrow> first node
         | None \<Rightarrow> None)))"

definition truthy :: "string option \<Rightarrow> bool" where
  \<comment> \<open>Python truthiness of an optional string: neither \<open>None\<close> nor empty.\<close>
  "truthy v = (case v of None \<Rightarrow> False | Some s \<Rightarrow> s \<noteq> [])"

subsection \<open>Section extraction\<close>

record subsection_entry =
  sub_section :: pyval
  sub_content :: string
  sub_subsubsections :: "tex list"
  sub_figures :: "tex list"

record section_entry =
  sec_section :: pyval
  sec_content :: string
  sec_subsections :: "subsection_entry list"
  sec_figures :: "tex list"

record scan_state =
  st_sections :: "section_entry list"
  st_parse :: bool
  st_is_section :: bool
  st_is_subsection :: bool

definition labels :: "string list" where
  "labels = [''label'', ''footnote'', ''cite'', ''citet'', ''citep'', ''ref'', ''$'', ''emph'',
             ''textit'', ''textbf'', ''paragraph'', ''tilde'']"

definition symbols :: "string list" where
  "symbols = [''in'', ''alpha'', ''phi'', ''perp'', ''cdot'', ''times'', ''log'', ''exp'', ''right'',
              ''sqrt'', ''theta'', ''sum'', ''Phi'', ''tau'', ''Theta'']"

definition update_last :: "('a \<Rightarrow> 'a) \<Rightarrow> 'a list \<Rightarrow> 'a list" where
  \<comment> \<open>An in-place update of \<open>xs[-1]\<close>; on an empty list the \<open>IndexError\<close> is caught by the
      caller's \<open>try\<close> and nothing changes.\<close>
  "update_last f xs = (if xs = [] then xs else butlast xs @ [f (last xs)])"

definition append_data :: "string \<Rightarrow> scan_state \<Rightarrow> scan_state" where
  \<comment> \<open>The inner function \<open>append\<close>.\<close>
  "append_data data st =
     (if st_is_section st then
        st\<lparr>st_sections :=
             update_last (\<lambda>sec. sec\<lparr>sec_content := sec_content sec @ data\<rparr>) (st_sections st)\<rparr>
      else if st_is_subsection st then
        st\<lparr>st_sections :=
             update_last
               (\<lambda>sec. sec\<lparr>sec_subsections :=
                   update_last (\<lambda>sub. sub\<lparr>sub_content := sub_content sub @ data\<rparr>)
                     (sec_subsections sec)\<rparr>)
               (st_sections st)\<rparr>
      else st)"

definition scan_node :: "texlib \<Rightarrow> tex \<Rightarrow> scan_state \<Rightarrow> scan_state" where
  \<comment> \<open>One iteration of the loop of \<open>sections\<close>.\<close>
  "scan_node L node st =
     (let st = (if is_named ''section'' node then st\<lparr>st_parse := True\<rparr> else st)
      in if \<not> st_parse st then st
         else if is_named ''section'' node then
           st\<lparr>st_sections := st_sections st @
                  [\<lparr>sec_section = lib_string L node, sec_content = [], sec_subsections = [],
                    sec_figures = []\<rparr>],
              st_is_section := True, st_is_subsection := False\<rparr>
         else if is_named ''subsection'' node then
           st\<lparr>st_sections :=
                update_last
                  (\<lambda>sec. sec\<lparr>sec_subsections := sec_subsections sec @
                      [\<lparr>sub_section = lib_string L node, sub_content = [],
                        sub_subsubsections = [], sub_figures = []\<rparr>]\<rparr>)
                  (st_sections st),
              st_is_section := False, st_is_subsection := True\<rparr>
         else
           (case node of
              Tok s \<Rightarrow> append_data (strip_newlines s) st
            | Node i name a cs \<Rightarrow>
                if name \<in> set labels then append_data (strip_newlines (lib_str L node)) st
                else if name = ''figure'' then append_data (lib_str L node) st
                else if name \<in> set [''align'', ''align*''] then append_data (lib_str L node) st
                else if name \<in> set symbols then append_data (''$'' @ lib_str L node @ ''$'') st
                else if name \<in> set [''bibliography'', ''bibliographystyle'', ''appendix''] then
                  st\<lparr>st_parse := False\<rparr>
                else append_data (lib_str L node) st))"

definition scan_init :: scan_state where
  "scan_init = \<lparr>st_sections = [], st_parse = False, st_is_section = False,
                st_is_subsection = False\<rparr>"

definition scan :: "texlib \<Rightarrow> tex list \<Rightarrow> scan_state \<Rightarrow> scan_state" where
  "scan L nodes st = fold (scan_node L) nodes st"

definition sections :: "texlib \<Rightarrow> tex \<Rightarrow> section_entry list" where
  "sections L soup =
     (case find_tex ''document'' soup of
        None \<Rightarrow> []
      | Some document \<Rightarrow> st_sections (scan L (descendants document) scan_init))"

definition is_stop :: "tex \<Rightarrow> bool" where
  \<comment> \<open>A \<open>bibliography\<close>, \<open>bibliographystyle\<close> or \<open>appendix\<close> command.\<close>
  "is_stop node =
     (is_named ''bibliography'' node \<or> is_named ''bibliographystyle'' node \<or>
      is_named ''appendix'' node)"

subsection \<open>Import resolution\<close>

text \<open>
  The file system is a map from paths to file contents; an open file is its name and its
  contents. The recursion over included files has no cycle detection, so it takes fuel:
  the outer \<open>None\<close> is "out of fuel", \<open>Some (Inl e)\<close> is the exception \<open>e\<close>.
\<close>

type_synonym filesystem = "string \<rightharpoonup> string"

type_synonym open_file = "string \<times> string"

definition py_open :: "filesystem \<Rightarrow> string \<Rightarrow> error + open_file" where
  "py_open fs path = (case fs path of None \<Rightarrow> Inl FileNotFoundError | Some text \<Rightarrow> Inr (path, text))"

definition slash :: char where
  "slash = CHR 0x2F"

definition dirname :: "string \<Rightarrow> string" where
  \<comment> \<open>\<open>os.path.dirname\<close> (POSIX)\<close>
  "dirname p =
     (let head = rev (dropWhile (\<lambda>c. c \<noteq> slash) (rev p))
      in if head \<noteq> [] \<and> \<not> list_all (\<lambda>c. c = slash) head
         then rev (dropWhile (\<lambda>c. c = slash) (rev head)) else head)"

definition path_join :: "string \<Rightarrow> string \<Rightarrow> string" where
  \<comment> \<open>\<open>os.path.join(a, b)\<close> (POSIX)\<close>
  "path_join a b =
     (if startswith b [slash] then b
      else if a = [] \<or> endswith a [slash] then a @ b
      else a @ [slash] @ b)"

definition check_filename :: "string \<Rightarrow> string" where
  "check_filename filename =
     (if \<not> endswith filename ''.tex'' then filename @ ''.tex'' else filename)"

definition arg_filename :: "tex \<Rightarrow> error + string" where
  \<comment> \<open>\<open>check_filename(node.args[0].string)\<close>\<close>
  "arg_filename node =
     (case node of
        Tok s \<Rightarrow> Inl AttributeError
      | Node i n a cs \<Rightarrow>
          (case a of
             [] \<Rightarrow> Inl IndexError
           | PNone # as \<Rightarrow> Inl AttributeError
           | PStr s # as \<Rightarrow> Inr (check_filename s)))"

definition subimport_path :: "tex \<Rightarrow> error + string" where
  \<comment> \<open>\<open>path = _subimport.args[0] + _subimport.args[1]\<close>, after the log message has looked
      both arguments up. The operands are the argument objects themselves, not their
      \<open>.string\<close> (which the three other loops read off the same objects by
      \<open>args[0].string\<close>); an argument object is no \<open>str\<close> and has no \<open>+\<close>, so the
      addition raises \<open>TypeError\<close> and no path is ever returned.\<close>
  "subimport_path node =
     (case node of
        Tok s \<Rightarrow> Inl AttributeError
      | Node i n a cs \<Rightarrow>
          (case a of
             x # y # as \<Rightarrow> Inl TypeError
           | _ \<Rightarrow> Inl IndexError))"

definition contents_of :: "tex \<Rightarrow> error + tex list" where
  \<comment> \<open>\<open>node.contents\<close>\<close>
  "contents_of node = (case node of Tok s \<Rightarrow> Inl AttributeError | Node i n a cs \<Rightarrow> Inr cs)"

fun replace_loop ::
  "(tex \<Rightarrow> (error + tex list) option) \<Rightarrow> tex list \<Rightarrow> tex \<Rightarrow> (error + tex) option" where
  \<comment> \<open>\<open>for d in found: d.replace_with(*resolved(d))\<close>\<close>
  "replace_loop resolved [] soup = Some (Inr soup)"
| "replace_loop resolved (d # ds) soup =
     (case resolved d of
        None \<Rightarrow> None
      | Some (Inl e) \<Rightarrow> Some (Inl e)
      | Some (Inr new) \<Rightarrow> replace_loop resolved ds (replace_id (ident d) new soup))"

definition then_res :: "(error + 'a) option \<Rightarrow> ('a \<Rightarrow> (error + 'b) option) \<Rightarrow> (error + 'b) option" where
  "then_res r f = (case r of None \<Rightarrow> None | Some (Inl e) \<Rightarrow> Some (Inl e) | Some (Inr x) \<Rightarrow> f x)"

definition lift_res :: "error + 'a \<Rightarrow> (error + 'a) option" where
  "lift_res r = Some r"

fun resolve_imports :: "texlib \<Rightarrow> filesystem \<Rightarrow> nat \<Rightarrow> open_file \<Rightarrow> (error + tex) option" where
  "resolve_imports L fs 0 file = None"
| "resolve_imports L fs (Suc fuel) file =
     (let soup = lib_parse L (snd file);
          cwd = dirname (fst file);
          resolve_path = (\<lambda>path. then_res (lift_res (py_open fs path)) (resolve_imports L fs fuel))
      in
      then_res
        (replace_loop
           (\<lambda>d. then_res (lift_res (subimport_path d)) (\<lambda>path.
                 then_res (resolve_path path) (\<lambda>r. lift_res (contents_of r))))
           (find_all ''subimport'' soup) soup) (\<lambda>soup.
      then_res
        (replace_loop
           (\<lambda>d. then_res (lift_res (arg_filename d)) (\<lambda>filename.
                 then_res (resolve_path filename) (\<lambda>r. lift_res (contents_of r))))
           (find_all ''import'' soup) soup) (\<lambda>soup.
      then_res
        (replace_loop
           (\<lambda>d. then_res (lift_res (arg_filename d)) (\<lambda>filename.
                 then_res (resolve_path filename) (\<lambda>r. lift_res (contents_of r))))
           (find_all ''include'' soup) soup) (\<lambda>soup.
      then_res
        (replace_loop
           (\<lambda>d. then_res (lift_res (arg_filename d)) (\<lambda>filename.
                 then_res (resolve_path (path_join cwd filename)) (\<lambda>r. Some (Inr [r]))))
           (find_all ''input'' soup) soup) (\<lambda>soup.
      Some (Inr (lib_parse L (clean_texfile (lib_str L soup)))))))))"



section \<open>Presentation model (\<open>tex2beam/classes/latex_presentation.py\<close>)\<close>

definition frames :: "tex \<Rightarrow> tex list" where
  "frames soup = find_all ''frame'' soup"

definition frame_count :: "tex \<Rightarrow> int" where
  "frame_count soup = int (length (frames soup))"

definition py_range :: "int \<Rightarrow> int list" where
  \<comment> \<open>\<open>range(n)\<close>\<close>
  "py_range n = map int [0..<nat n]"

definition py_getitem :: "'a list \<Rightarrow> int \<Rightarrow> error + 'a" where
  \<comment> \<open>\<open>xs[i]\<close>: a negative index counts from the end.\<close>
  "py_getitem xs i =
     (let n = int (length xs); j = (if i < 0 then n + i else i)
      in if 0 \<le> j \<and> j < n then Inr (xs ! nat j) else Inl IndexError)"






subsection \<open>The deduplication rule, and deleting several nodes at once\<close>

text \<open>
  The word-tokens of a frame are \<open>get_frame_contents(frame).split()\<close>. The overlap ratio of
  an earlier frame with a later one is the number of the earlier frame's tokens that
  occur among the later frame's tokens, divided by the earlier frame's token count. An
  earlier frame \<open>collapses\<close> into the next one when it has tokens and the ratio reaches
  the threshold; \<open>kept\<close> applies that rule to each consecutive pair of a frame list.
  \<open>doomed\<close> lists the identities of the frames that the rule deletes, in the order of
  the loop. \<open>node_ids\<close> lists the identities of the nodes below a node; \<open>delete_ids\<close>
  deletes every node whose identity is in a set.
\<close>

definition is_node :: "tex \<Rightarrow> bool" where
  "is_node t = (case t of Tok s \<Rightarrow> False | Node i n a cs \<Rightarrow> True)"

definition node_ids :: "tex \<Rightarrow> nat list" where
  "node_ids t = map ident (filter is_node (descendants t))"

definition in_ids :: "nat set \<Rightarrow> tex \<Rightarrow> bool" where
  "in_ids D node = (case node of Tok s \<Rightarrow> False | Node j n a cs \<Rightarrow> j \<in> D)"

fun delete_ids :: "nat set \<Rightarrow> tex \<Rightarrow> tex" where
  "delete_ids D (Tok s) = Tok s"
| "delete_ids D (Node j n a cs) =
     Node j n a (filter (\<lambda>c. \<not> in_ids D c) (map (delete_ids D) cs))"







definition titlepage_marker :: string where
  \<comment> \<open>the Python literal \<open>"\\titlepage"\<close>\<close>
  "titlepage_marker = CHR 0x5C # ''titlepage''"

definition frame_title_body :: "texlib \<Rightarrow> tex \<Rightarrow> tex \<Rightarrow> error + string option" where
  \<comment> \<open>The body of the \<open>try\<close> block of \<open>get_frame_title\<close> and the final \<open>return None\<close>.\<close>
  "frame_title_body L soup frame =
     (case frame of
        Tok s \<Rightarrow> Inl AttributeError
      | Node i n a cs \<Rightarrow>
          if truthy (title L soup) \<and> find_tex ''titlepage'' frame \<noteq> None then Inr (title L soup)
          else
            (case a of
               t # ts \<Rightarrow>
                 (case t of
                    PNone \<Rightarrow> Inl TypeError
                  | PStr s \<Rightarrow>
                      if py_in titlepage_marker s
                      then Inr (if truthy (title L soup) then title L soup else None)
                      else Inr (Some s))
             | [] \<Rightarrow>
                 (case find_tex ''frametitle'' frame of
                    Some ft \<Rightarrow>
                      (case lib_text L ft of
                         [] \<Rightarrow> Inl IndexError
                       | t # ts \<Rightarrow> Inr (Some t))
                  | None \<Rightarrow> Inr None)))"

definition get_frame_title :: "texlib \<Rightarrow> tex \<Rightarrow> tex \<Rightarrow> string option" where
  \<comment> \<open>\<open>except Exception: return None\<close>\<close>
  "get_frame_title L soup frame =
     (case frame_title_body L soup frame of Inl e \<Rightarrow> None | Inr r \<Rightarrow> r)"

definition frame :: "tex \<Rightarrow> int \<Rightarrow> error + tex option" where
  "frame soup i =
     (if i \<notin> set (py_range (frame_count soup)) then Inr None
      else (case py_getitem (frames soup) i of Inl e \<Rightarrow> Inl e | Inr f \<Rightarrow> Inr (Some f)))"

definition slide :: "tex \<Rightarrow> int \<Rightarrow> error + tex option" where
  "slide soup i = frame soup i"

subsection \<open>The tree after import resolution\<close>

text \<open>
  The \<open>subimport\<close> loop never gets as far as opening a file (\<open>subimport_path\<close> raises), so
  the directives that can be resolved are the nodes called \<open>import\<close>, \<open>include\<close> or
  \<open>input\<close>. For such a directive \<open>d\<close> of a file whose directory is \<open>cwd\<close>,
  \<open>directive_path\<close> is the path the code opens, \<open>resolved_root\<close> the result of resolving
  that file and \<open>spliced\<close> the nodes put in the place of \<open>d\<close>: the resolved root itself
  for \<open>input\<close>, its contents for the two others. \<open>splice\<close> puts these nodes in the place of
  every directive of a tree; \<open>replace_in\<close> does so for the nodes whose identity is in a set.
  A parsed file is \<open>resolvable\<close> when it holds no \<open>subimport\<close> node, its nodes are distinct
  objects, every directive in it resolves to a node, no directive lies inside another, and
  the nodes spliced in hold no directive and are new objects.
\<close>

definition directive_names :: "string list" where
  "directive_names = [''import'', ''include'', ''input'']"

definition is_kind :: "string set \<Rightarrow> tex \<Rightarrow> bool" where
  "is_kind K node = (case node of Tok s \<Rightarrow> False | Node j n a cs \<Rightarrow> n \<in> K)"

definition is_directive :: "tex \<Rightarrow> bool" where
  "is_directive node = is_kind (set directive_names) node"

definition all_ids :: "tex \<Rightarrow> nat list" where
  "all_ids t = (case t of Tok s \<Rightarrow> [] | Node j n a cs \<Rightarrow> j # node_ids t)"

fun replace_in :: "nat set \<Rightarrow> (tex \<Rightarrow> tex list) \<Rightarrow> tex \<Rightarrow> tex" where
  "replace_in D \<sigma> (Tok s) = Tok s"
| "replace_in D \<sigma> (Node j n a cs) =
     Node j n a (concat (map (\<lambda>c. if in_ids D c then \<sigma> c else [replace_in D \<sigma> c]) cs))"

fun splice :: "(tex \<Rightarrow> tex list) \<Rightarrow> tex \<Rightarrow> tex" where
  "splice \<sigma> (Tok s) = Tok s"
| "splice \<sigma> (Node j n a cs) =
     Node j n a (concat (map (\<lambda>c. if is_directive c then \<sigma> c else [splice \<sigma> c]) cs))"

definition kind_ids :: "string set \<Rightarrow> tex \<Rightarrow> nat set" where
  "kind_ids K t = ident ` {d \<in> set (descendants t). is_kind K d}"

definition directive_path :: "string \<Rightarrow> tex \<Rightarrow> error + string" where
  "directive_path cwd d =
     (if is_named ''input'' d then
        (case arg_filename d of Inl e \<Rightarrow> Inl e | Inr filename \<Rightarrow> Inr (path_join cwd filename))
      else arg_filename d)"

definition resolved_root :: "texlib \<Rightarrow> filesystem \<Rightarrow> nat \<Rightarrow> string \<Rightarrow> tex \<Rightarrow> (error + tex) option" where
  "resolved_root L fs fuel cwd d =
     then_res (lift_res (directive_path cwd d)) (\<lambda>path.
       then_res (lift_res (py_open fs path)) (resolve_imports L fs fuel))"

definition spliced :: "texlib \<Rightarrow> filesystem \<Rightarrow> nat \<Rightarrow> string \<Rightarrow> tex \<Rightarrow> tex list" where
  "spliced L fs fuel cwd d =
     (case resolved_root L fs fuel cwd d of
        Some (Inr r) \<Rightarrow>
          if is_named ''input'' d then [r]
          else (case r of Tok s \<Rightarrow> [] | Node j n a cs \<Rightarrow> cs)
      | _ \<Rightarrow> [])"

definition resolvable :: "texlib \<Rightarrow> filesystem \<Rightarrow> nat \<Rightarrow> string \<Rightarrow> tex \<Rightarrow> bool" where
  "resolvable L fs fuel cwd soup =
     (find_all ''subimport'' soup = [] \<and> distinct (node_ids soup) \<and>
      (\<forall>d \<in> set (descendants soup). is_directive d \<longrightarrow>
         (\<exists>r. resolved_root L fs fuel cwd d = Some (Inr r) \<and> is_node r) \<and>
         (\<forall>e \<in> set (descendants d). \<not> is_directive e) \<and>
         (\<forall>x \<in> set (spliced L fs fuel cwd d).
            \<not> is_directive x \<and> (\<forall>e \<in> set (descendants x). \<not> is_directive e) \<and>
            (\<forall>i \<in> set (all_ids x). i \<notin> set (node_ids soup)))))"

section \<open>A concrete library instance\<close>

text \<open>
  A small instance of the library parameters, to run the functions above on example
  trees: the text of a node is the strings of the tokens below it, its \<open>.string\<close> is its
  first argument, it prints as a command around its printed contents, and parsing yields
  a root with one token.
\<close>

fun texts :: "tex \<Rightarrow> string list" where
  "texts (Tok s) = [s]"
| "texts (Node i n a cs) = concat (map texts cs)"

fun render :: "tex \<Rightarrow> string" where
  "render (Tok s) = s"
| "render (Node i n a cs) =
     (if n = ''[tex]'' then concat (map render cs)
      else CHR 0x5C # n @ (if cs = [] then [] else ''{'' @ concat (map render cs) @ ''}''))"

definition plain_lib :: texlib where
  "plain_lib =
     \<lparr>lib_text = texts,
      lib_string = (\<lambda>node. case node of Tok s \<Rightarrow> PStr s
                      | Node i n a cs \<Rightarrow> (case a of [] \<Rightarrow> PNone | v # vs \<Rightarrow> v)),
      lib_str = render,
      lib_parse = (\<lambda>src. Node 0 ''[tex]'' [] [Tok src])\<rparr>"

text \<open>
  An example file system: \<open>main.tex\<close> holds a section, an \<open>input\<close> of \<open>b\<close> and an
  \<open>include\<close> of \<open>c\<close>; the parser of \<open>demo_lib\<close> knows the three files by their text.
\<close>

definition demo_lib :: texlib where
  "demo_lib = plain_lib\<lparr>lib_parse := (\<lambda>src.
            if src = ''MAIN'' then
              Node 0 ''[tex]'' []
                [Node 4 ''section'' [PStr ''A''] [Tok ''A''],
                 Node 2 ''input'' [PStr ''b''] [Tok ''b''],
                 Node 3 ''include'' [PStr ''c''] [Tok ''c'']]
            else if src = ''B'' then Node 10 ''[tex]'' [] [Tok ''B'']
            else if src = ''C'' then Node 20 ''[tex]'' [] [Tok ''C'']
            else Node 30 ''[tex]'' [] [Tok src])\<rparr>"

definition demo_files :: filesystem where
  "demo_files = [''main.tex'' \<mapsto> ''MAIN'', ''b.tex'' \<mapsto> ''B'', ''c.tex'' \<mapsto> ''C'']"

text \<open>
  A second example: \<open>main.tex\<close> holds one \<open>subimport\<close> of the file \<open>sec/intro.tex\<close>, which
  exists; the parser of \<open>subimport_lib\<close> reads it as a \<open>subimport\<close> node with its two
  arguments.
\<close>

definition subimport_source :: string where
  "subimport_source = CHR 0x5C # ''subimport{sec/}{intro}''"

definition subimport_lib :: texlib where
  "subimport_lib = plain_lib\<lparr>lib_parse := (\<lambda>src.
            if src = subimport_source then
              Node 0 ''[tex]'' [] [Node 1 ''subimport'' [PStr ''sec/'', PStr ''intro''] []]
            else Node 10 ''[tex]'' [] [Tok src])\<rparr>"

definition subimport_files :: filesystem where
  "subimport_files = [''main.tex'' \<mapsto> subimport_source, ''sec/intro.tex'' \<mapsto> ''Introduction'']"

section \<open>Properties\<close>

subsection \<open>Confusion matrix\<close>

lemma set_fromkeys_fold:
  "set (fold (\<lambda>x acc. if x \<in> set acc then acc else acc @ [x]) xs acc) = set acc \<union> set xs"
  by (induction xs arbitrary: acc) auto

lemma set_fromkeys: "set (fromkeys xs) = set xs"
  by (simp add: fromkeys_def set_fromkeys_fold)

lemma match_loop_elements:
  "match_loop bs thr d k ps acc = Inr ms \<Longrightarrow> m \<in> set ms \<Longrightarrow>
     m \<in> set acc \<or>
     (\<exists>(c, i, r, j) \<in> set ps. element (candidate m) = c \<and> element (reference m) = r)"
proof (induction ps arbitrary: k acc)
  case Nil
  then show ?case by simp
next
  case (Cons p ps)
  obtain c i r j where p: "p = (c, i, r, j)" by (cases p) auto
  from Cons.prems(1) p obtain acc' where
    run: "match_loop bs thr d (Suc k) ps acc' = Inr ms"
    and acc': "acc' = acc \<or> (\<exists>x y z. acc' = acc @ [mk_match d c i r j x y z])"
    by (auto split: if_splits sum.splits)
  from Cons.IH [OF run Cons.prems(2)] acc' p show ?case
    by (auto simp: mk_match_def)
qed

lemma permutations_of_elements:
  "(c, i, r, j) \<in> set (permutations_of cs rs) \<Longrightarrow> c \<in> set cs \<and> r \<in> set rs"
  by (auto simp: permutations_of_def in_set_enumerate_eq)

lemma match_elements_within:
  assumes "snd (match_elements sc cs rs thr d) = Inr ms"
  shows "(\<lambda>m. element (candidate m)) ` set ms \<subseteq> set cs
       \<and> (\<lambda>m. element (reference m)) ` set ms \<subseteq> set rs"
proof -
  from assms obtain bs where
    run: "match_loop bs thr d 0 (permutations_of (fromkeys cs) (fromkeys rs)) [] = Inr ms"
    by (simp add: match_elements_def Let_def)
  have "element (candidate m) \<in> set cs \<and> element (reference m) \<in> set rs" if "m \<in> set ms" for m
    using match_loop_elements [OF run that] permutations_of_elements [of _ _ _ _ "fromkeys cs" "fromkeys rs"]
    by (auto simp: set_fromkeys)
  then show ?thesis by auto
qed

text \<open>
  C3. For every candidate list, reference list and list of matches, the confusion matrix
  is \<open>[[TP, FP], [FN, TN]]\<close> where TP is the number of match records (a repeated
  element counts once per record), FP is the number of distinct candidate elements minus
  the number of distinct elements that are the candidate of some match, FN is the number
  of distinct reference elements minus the number of distinct elements that are the
  reference of some match, and TN is 0. For the matches that the element matcher returns
  on these lists, the subtracted numbers count the distinct candidate (reference)
  elements of the lists that appear in some match.
\<close>

theorem confusion_matrix_counts:
  "calculate_confusion_matrix cs rs ms =
     ((int (length ms),
       int (card (set cs)) - int (card ((\<lambda>m. element (candidate m)) ` set ms))),
      (int (card (set rs)) - int (card ((\<lambda>m. element (reference m)) ` set ms)),
       0))
   \<and> (\<forall>sc cs0 rs0 thr d. snd (match_elements sc cs0 rs0 thr d) = Inr ms \<longrightarrow>
         calculate_confusion_matrix cs0 rs0 ms =
           ((int (length ms),
             int (card (set cs0)) - int (card {c \<in> set cs0. \<exists>m \<in> set ms. element (candidate m) = c})),
            (int (card (set rs0)) - int (card {r \<in> set rs0. \<exists>m \<in> set ms. element (reference m) = r}),
             0)))"
proof (intro conjI allI impI)
  show g: "\<And>cs rs. calculate_confusion_matrix cs rs ms =
     ((int (length ms),
       int (card (set cs)) - int (card ((\<lambda>m. element (candidate m)) ` set ms))),
      (int (card (set rs)) - int (card ((\<lambda>m. element (reference m)) ` set ms)),
       0))"
    by (simp add: calculate_confusion_matrix_def py_set_len_def length_remdups_card_conv)
  fix sc cs0 rs0 thr d
  assume "snd (match_elements sc cs0 rs0 thr d) = Inr ms"
  from match_elements_within [OF this]
  have "(\<lambda>m. element (candidate m)) ` set ms = {c \<in> set cs0. \<exists>m \<in> set ms. element (candidate m) = c}"
    and "(\<lambda>m. element (reference m)) ` set ms = {r \<in> set rs0. \<exists>m \<in> set ms. element (reference m) = r}"
    by auto
  with g [of cs0 rs0]
  show "calculate_confusion_matrix cs0 rs0 ms =
           ((int (length ms),
             int (card (set cs0)) - int (card {c \<in> set cs0. \<exists>m \<in> set ms. element (candidate m) = c})),
            (int (card (set rs0)) - int (card {r \<in> set rs0. \<exists>m \<in> set ms. element (reference m) = r}),
             0))"
    by simp
qed

subsection \<open>Element matcher\<close>

lemma py_round_one: "py_round 1 d = 1"
  by (simp add: py_round_def round_half_even_def)

lemma match_loop_exact:
  "match_loop bs thr d k ps acc = Inr ms \<Longrightarrow>
     set acc \<subseteq> set ms \<and>
     (\<forall>(c, i, r, j) \<in> set ps. c = r \<longrightarrow> mk_match d c i r j 1 1 1 \<in> set ms)"
proof (induction ps arbitrary: k acc)
  case Nil
  then show ?case by simp
next
  case (Cons p ps)
  obtain c i r j where p: "p = (c, i, r, j)" by (cases p) auto
  show ?case
  proof (cases "c = r")
    case True
    with Cons.prems p have
      "match_loop bs thr d (Suc k) ps (acc @ [mk_match d c i r j 1 1 1]) = Inr ms" by simp
    from Cons.IH [OF this] show ?thesis using p True by auto
  next
    case False
    then show ?thesis
      using Cons.prems p by (auto split: sum.splits if_splits dest!: Cons.IH)
  qed
qed

lemma in_permutations_of:
  "i < length cs \<Longrightarrow> j < length rs \<Longrightarrow> (cs ! i, int i, rs ! j, int j) \<in> set (permutations_of cs rs)"
  by (force simp: permutations_of_def in_set_enumerate_eq)

lemma mk_match_exact:
  "mk_match d c i r j 1 1 1 =
     \<lparr>candidate = \<lparr>element = c, index = i\<rparr>, reference = \<lparr>element = r, index = j\<rparr>,
      score = \<lparr>precision = 1, recall = 1, f1 = 1\<rparr>\<rparr>"
  by (simp add: mk_match_def py_round_one)

text \<open>
  C4 (as amended). The scorer is called exactly once per run of the matcher, on the whole
  cross product of the deduplicated lists, equal pairs included. Whatever it returns,
  every pair of equal strings is recorded with precision, recall and f1 all 1.0 (when the
  matcher returns at all: it raises only if the scorer's lists are too short). Matching
  \<open>["Introduction"]\<close> against \<open>["Introduction"]\<close> yields exactly one record, with all
  scores 1.0, after one scorer call on that pair.
\<close>

theorem match_elements_exact_pairs:
  "fst (match_elements sc cs rs thr d) =
     [(map (\<lambda>(c, i, r, j). c) (permutations_of (fromkeys cs) (fromkeys rs)),
       map (\<lambda>(c, i, r, j). r) (permutations_of (fromkeys cs) (fromkeys rs)))]
   \<and> (\<forall>ms i j. snd (match_elements sc cs rs thr d) = Inr ms \<longrightarrow>
         i < length (fromkeys cs) \<longrightarrow> j < length (fromkeys rs) \<longrightarrow>
         fromkeys cs ! i = fromkeys rs ! j \<longrightarrow>
         \<lparr>candidate = \<lparr>element = fromkeys cs ! i, index = int i\<rparr>,
          reference = \<lparr>element = fromkeys rs ! j, index = int j\<rparr>,
          score = \<lparr>precision = 1, recall = 1, f1 = 1\<rparr>\<rparr> \<in> set ms)
   \<and> match_elements sc [''Introduction''] [''Introduction''] thr d =
       ([([''Introduction''], [''Introduction''])],
        Inr [\<lparr>candidate = \<lparr>element = ''Introduction'', index = 0\<rparr>,
              reference = \<lparr>element = ''Introduction'', index = 0\<rparr>,
              score = \<lparr>precision = 1, recall = 1, f1 = 1\<rparr>\<rparr>])"
proof (intro conjI allI impI)
  show "fst (match_elements sc cs rs thr d) =
     [(map (\<lambda>(c, i, r, j). c) (permutations_of (fromkeys cs) (fromkeys rs)),
       map (\<lambda>(c, i, r, j). r) (permutations_of (fromkeys cs) (fromkeys rs)))]"
    by (simp add: match_elements_def Let_def)
next
  fix ms i j
  assume res: "snd (match_elements sc cs rs thr d) = Inr ms"
    and i: "i < length (fromkeys cs)" and j: "j < length (fromkeys rs)"
    and eq: "fromkeys cs ! i = fromkeys rs ! j"
  from res obtain bs where
    "match_loop bs thr d 0 (permutations_of (fromkeys cs) (fromkeys rs)) [] = Inr ms"
    by (simp add: match_elements_def Let_def)
  from match_loop_exact [OF this] in_permutations_of [OF i j] eq
  have "mk_match d (fromkeys cs ! i) (int i) (fromkeys rs ! j) (int j) 1 1 1 \<in> set ms"
    by fastforce
  then show "\<lparr>candidate = \<lparr>element = fromkeys cs ! i, index = int i\<rparr>,
          reference = \<lparr>element = fromkeys rs ! j, index = int j\<rparr>,
          score = \<lparr>precision = 1, recall = 1, f1 = 1\<rparr>\<rparr> \<in> set ms"
    by (simp add: mk_match_exact)
next
  show "match_elements sc [''Introduction''] [''Introduction''] thr d =
       ([([''Introduction''], [''Introduction''])],
        Inr [\<lparr>candidate = \<lparr>element = ''Introduction'', index = 0\<rparr>,
              reference = \<lparr>element = ''Introduction'', index = 0\<rparr>,
              score = \<lparr>precision = 1, recall = 1, f1 = 1\<rparr>\<rparr>])"
    by (simp add: match_elements_def fromkeys_def permutations_of_def mk_match_exact)
qed

theorem match_elements_exact_pairs_witness:
  "match_elements
     (\<lambda>p r. \<lparr>bs_precision = map (\<lambda>x. 4 / 5) p, bs_recall = map (\<lambda>x. 3 / 5) p,
              bs_f1 = map (\<lambda>x. 1 / 5) p\<rparr>)
     [''Intro'', ''Method'', ''Intro''] [''Method'', ''Results''] (3 / 5) 3 =
     ([([''Intro'', ''Intro'', ''Method'', ''Method''], [''Method'', ''Results'', ''Method'', ''Results''])],
      Inr [\<lparr>candidate = \<lparr>element = ''Method'', index = 1\<rparr>,
            reference = \<lparr>element = ''Method'', index = 0\<rparr>,
            score = \<lparr>precision = 1, recall = 1, f1 = 1\<rparr>\<rparr>])
   \<and> \<lparr>candidate = \<lparr>element = ''Method'', index = 1\<rparr>,
       reference = \<lparr>element = ''Method'', index = 0\<rparr>,
       score = \<lparr>precision = 1, recall = 1, f1 = 1\<rparr>\<rparr>
     \<in> set [\<lparr>candidate = \<lparr>element = ''Method'', index = 1\<rparr>,
            reference = \<lparr>element = ''Method'', index = 0\<rparr>,
            score = \<lparr>precision = 1, recall = 1, f1 = 1\<rparr>\<rparr>]"
  using match_elements_exact_pairs
    [of "\<lambda>p r. \<lparr>bs_precision = map (\<lambda>x. 4 / 5) p, bs_recall = map (\<lambda>x. 3 / 5) p,
              bs_f1 = map (\<lambda>x. 1 / 5) p\<rparr>"
        "[''Intro'', ''Method'', ''Intro'']" "[''Method'', ''Results'']" "3 / 5" 3]
  by (simp add: match_elements_def fromkeys_def permutations_of_def mk_match_exact list_get_def)

text \<open>
  The claim as stated fails: on \<open>["Introduction"]\<close> against \<open>["Introduction"]\<close> the
  scorer is called once, with that very pair, not zero times.
\<close>

theorem match_elements_scorer_called:
  "fst (match_elements
     (\<lambda>p r. \<lparr>bs_precision = map (\<lambda>x. 4 / 5) p, bs_recall = map (\<lambda>x. 3 / 5) p,
              bs_f1 = map (\<lambda>x. 1 / 5) p\<rparr>)
     [''Introduction''] [''Introduction''] (3 / 5) 3) = [([''Introduction''], [''Introduction''])]
   \<and> length (fst (match_elements
     (\<lambda>p r. \<lparr>bs_precision = map (\<lambda>x. 4 / 5) p, bs_recall = map (\<lambda>x. 3 / 5) p,
              bs_f1 = map (\<lambda>x. 1 / 5) p\<rparr>)
     [''Introduction''] [''Introduction''] (3 / 5) 3)) \<noteq> 0"
  by (simp add: match_elements_def fromkeys_def permutations_of_def)

theorem confusion_matrix_counts_witness:
  "snd (match_elements
          (\<lambda>p r. \<lparr>bs_precision = [0, 0, 0, 7 / 10], bs_recall = [0, 0, 0, 7 / 10],
                   bs_f1 = [0, 1 / 10, 1 / 10, 7 / 10]\<rparr>)
          [''X'', ''Y''] [''X'', ''X2''] (6 / 10) 3)
     = Inr [\<lparr>candidate = \<lparr>element = ''X'', index = 0\<rparr>, reference = \<lparr>element = ''X'', index = 0\<rparr>,
             score = \<lparr>precision = 1, recall = 1, f1 = 1\<rparr>\<rparr>,
            \<lparr>candidate = \<lparr>element = ''Y'', index = 1\<rparr>, reference = \<lparr>element = ''X2'', index = 1\<rparr>,
             score = \<lparr>precision = 7 / 10, recall = 7 / 10, f1 = 7 / 10\<rparr>\<rparr>]
   \<and> calculate_confusion_matrix [''X'', ''Y''] [''X'', ''X2'']
     [\<lparr>candidate = \<lparr>element = ''X'', index = 0\<rparr>, reference = \<lparr>element = ''X'', index = 0\<rparr>,
       score = \<lparr>precision = 1, recall = 1, f1 = 1\<rparr>\<rparr>,
      \<lparr>candidate = \<lparr>element = ''Y'', index = 1\<rparr>, reference = \<lparr>element = ''X2'', index = 1\<rparr>,
       score = \<lparr>precision = 7 / 10, recall = 7 / 10, f1 = 7 / 10\<rparr>\<rparr>] = ((2, 0), (0, 0))"
proof -
  let ?sc = "\<lambda>p r :: string list. \<lparr>bs_precision = [0, 0, 0, 7 / 10], bs_recall = [0, 0, 0, 7 / 10],
                   bs_f1 = [0, 1 / 10, 1 / 10, 7 / 10 :: real]\<rparr>"
  let ?ms = "[\<lparr>candidate = \<lparr>element = ''X'', index = 0\<rparr>, reference = \<lparr>element = ''X'', index = 0\<rparr>,
       score = \<lparr>precision = 1, recall = 1, f1 = 1\<rparr>\<rparr>,
      \<lparr>candidate = \<lparr>element = ''Y'', index = 1\<rparr>, reference = \<lparr>element = ''X2'', index = 1\<rparr>,
       score = \<lparr>precision = 7 / 10, recall = 7 / 10, f1 = 7 / 10\<rparr>\<rparr>]"
  have run: "snd (match_elements ?sc [''X'', ''Y''] [''X'', ''X2''] (6 / 10) 3) = Inr ?ms"
    by (simp add: match_elements_def fromkeys_def permutations_of_def mk_match_def list_get_def
          py_round_def round_half_even_def)
  have sets: "{c \<in> set [''X'', ''Y'']. \<exists>m \<in> set ?ms. element (candidate m) = c} = {''X'', ''Y''}"
    "{r \<in> set [''X'', ''X2'']. \<exists>m \<in> set ?ms. element (reference m) = r} = {''X'', ''X2''}"
    by auto
  from confusion_matrix_counts [of "[''X'', ''Y'']" "[''X'', ''X2'']" ?ms, THEN conjunct2,
      rule_format, OF run]
  have "calculate_confusion_matrix [''X'', ''Y''] [''X'', ''X2''] ?ms = ((2, 0), (0, 0))"
    by (simp only: sets) simp
  with run show ?thesis by simp
qed

subsection \<open>Rank correlation\<close>

lemma round_half_even_near: "\<bar>of_int (round_half_even y) - y\<bar> \<le> 1 / 2"
  unfolding round_half_even_def Let_def
  by (auto simp: abs_if not_less) linarith+

lemma py_round_near: "\<bar>py_round x d - x\<bar> \<le> 1 / (2 * 10 ^ d)"
proof -
  have p: "(0::real) < 10 ^ d" by simp
  have "py_round x d - x = (of_int (round_half_even (x * 10 ^ d)) - x * 10 ^ d) / 10 ^ d"
    by (simp add: py_round_def field_simps)
  then have "\<bar>py_round x d - x\<bar>
      = \<bar>of_int (round_half_even (x * 10 ^ d)) - x * 10 ^ d\<bar> / 10 ^ d"
    by simp
  also have "\<dots> \<le> (1 / 2) / 10 ^ d"
    using p round_half_even_near [of "x * 10 ^ d"] by (intro divide_right_mono) auto
  finally show ?thesis by simp
qed

lemma py_round_grid: "py_round x d * 10 ^ d = of_int (round_half_even (x * 10 ^ d))"
  by (simp add: py_round_def)

lemma kendall_tau_b_example: "kendall_tau_b [0, 1, 2] [0, 2, 1] = Some (1 / 3)"
proof -
  have s: "sqrt 9 = 3" using real_sqrt_abs [of 3] by simp
  show ?thesis
    by (simp add: kendall_tau_b_def position_pairs_def upt_rec s)
qed

lemma kendall_tau_b_ties: "kendall_tau_b [0, 0] [1, 2] = None"
  by (simp add: kendall_tau_b_def position_pairs_def upt_rec)

text \<open>
  C5 (as amended). With exactly one match the rank correlation is 1.0, whatever the
  indices. With any other number of matches it is 0.0 when Kendall's tau over the matched
  candidate and reference indices is undefined (NaN), and otherwise that tau rounded to
  \<open>decimals\<close> decimal places (3 by default): a multiple of \<open>10 ^ -decimals\<close> at most half
  a unit of the last place away from tau.
\<close>

theorem kendall_tau_rounded:
  "(length ms = 1 \<longrightarrow> calculate_kendall_tau kt ms d = 1)
   \<and> (length ms \<noteq> 1 \<longrightarrow>
        kt (map (\<lambda>m. index (candidate m)) ms) (map (\<lambda>m. index (reference m)) ms) = None \<longrightarrow>
        calculate_kendall_tau kt ms d = 0)
   \<and> (\<forall>t. length ms \<noteq> 1 \<longrightarrow>
        kt (map (\<lambda>m. index (candidate m)) ms) (map (\<lambda>m. index (reference m)) ms) = Some t \<longrightarrow>
        calculate_kendall_tau kt ms d = py_round t d
        \<and> \<bar>calculate_kendall_tau kt ms d - t\<bar> \<le> 1 / (2 * 10 ^ d)
        \<and> calculate_kendall_tau kt ms d * 10 ^ d = of_int (round_half_even (t * 10 ^ d)))"
  by (simp add: calculate_kendall_tau_def py_round_near py_round_grid)

theorem kendall_tau_rounded_witness:
  "calculate_kendall_tau kendall_tau_b
     [\<lparr>candidate = \<lparr>element = ''a'', index = 4\<rparr>, reference = \<lparr>element = ''b'', index = 7\<rparr>,
       score = \<lparr>precision = 1, recall = 1, f1 = 1\<rparr>\<rparr>] 3 = 1
   \<and> calculate_kendall_tau kendall_tau_b
     [\<lparr>candidate = \<lparr>element = ''a'', index = 0\<rparr>, reference = \<lparr>element = ''b'', index = 1\<rparr>,
       score = \<lparr>precision = 1, recall = 1, f1 = 1\<rparr>\<rparr>,
      \<lparr>candidate = \<lparr>element = ''a'', index = 0\<rparr>, reference = \<lparr>element = ''c'', index = 2\<rparr>,
       score = \<lparr>precision = 1, recall = 1, f1 = 1\<rparr>\<rparr>] 3 = 0
   \<and> calculate_kendall_tau kendall_tau_b
     [\<lparr>candidate = \<lparr>element = ''a'', index = 0\<rparr>, reference = \<lparr>element = ''a'', index = 0\<rparr>,
       score = \<lparr>precision = 1, recall = 1, f1 = 1\<rparr>\<rparr>,
      \<lparr>candidate = \<lparr>element = ''b'', index = 1\<rparr>, reference = \<lparr>element = ''b'', index = 2\<rparr>,
       score = \<lparr>precision = 1, recall = 1, f1 = 1\<rparr>\<rparr>,
      \<lparr>candidate = \<lparr>element = ''c'', index = 2\<rparr>, reference = \<lparr>element = ''c'', index = 1\<rparr>,
       score = \<lparr>precision = 1, recall = 1, f1 = 1\<rparr>\<rparr>] 3 = py_round (1 / 3) 3"
  using
    kendall_tau_rounded [of
      "[\<lparr>candidate = \<lparr>element = ''a'', index = 4\<rparr>, reference = \<lparr>element = ''b'', index = 7\<rparr>,
         score = \<lparr>precision = 1, recall = 1, f1 = 1\<rparr>\<rparr>]" kendall_tau_b 3]
    kendall_tau_rounded [of
      "[\<lparr>candidate = \<lparr>element = ''a'', index = 0\<rparr>, reference = \<lparr>element = ''b'', index = 1\<rparr>,
         score = \<lparr>precision = 1, recall = 1, f1 = 1\<rparr>\<rparr>,
        \<lparr>candidate = \<lparr>element = ''a'', index = 0\<rparr>, reference = \<lparr>element = ''c'', index = 2\<rparr>,
         score = \<lparr>precision = 1, recall = 1, f1 = 1\<rparr>\<rparr>]" kendall_tau_b 3]
    kendall_tau_rounded [of
      "[\<lparr>candidate = \<lparr>element = ''a'', index = 0\<rparr>, reference = \<lparr>element = ''a'', index = 0\<rparr>,
         score = \<lparr>precision = 1, recall = 1, f1 = 1\<rparr>\<rparr>,
        \<lparr>candidate = \<lparr>element = ''b'', index = 1\<rparr>, reference = \<lparr>element = ''b'', index = 2\<rparr>,
         score = \<lparr>precision = 1, recall = 1, f1 = 1\<rparr>\<rparr>,
        \<lparr>candidate = \<lparr>element = ''c'', index = 2\<rparr>, reference = \<lparr>element = ''c'', index = 1\<rparr>,
         score = \<lparr>precision = 1, recall = 1, f1 = 1\<rparr>\<rparr>]" kendall_tau_b 3]
    kendall_tau_b_example kendall_tau_b_ties
  by simp

text \<open>
  The claim as stated fails: for matched candidate indices 0, 1, 2 and reference indices
  0, 2, 1 Kendall's tau is 1/3, and the function returns 0.333.
\<close>

theorem kendall_tau_not_exact:
  "kendall_tau_b [0, 1, 2] [0, 2, 1] = Some (1 / 3)
   \<and> calculate_kendall_tau kendall_tau_b
     [\<lparr>candidate = \<lparr>element = ''a'', index = 0\<rparr>, reference = \<lparr>element = ''a'', index = 0\<rparr>,
       score = \<lparr>precision = 1, recall = 1, f1 = 1\<rparr>\<rparr>,
      \<lparr>candidate = \<lparr>element = ''b'', index = 1\<rparr>, reference = \<lparr>element = ''b'', index = 2\<rparr>,
       score = \<lparr>precision = 1, recall = 1, f1 = 1\<rparr>\<rparr>,
      \<lparr>candidate = \<lparr>element = ''c'', index = 2\<rparr>, reference = \<lparr>element = ''c'', index = 1\<rparr>,
       score = \<lparr>precision = 1, recall = 1, f1 = 1\<rparr>\<rparr>] 3 = 333 / 1000
   \<and> calculate_kendall_tau kendall_tau_b
     [\<lparr>candidate = \<lparr>element = ''a'', index = 0\<rparr>, reference = \<lparr>element = ''a'', index = 0\<rparr>,
       score = \<lparr>precision = 1, recall = 1, f1 = 1\<rparr>\<rparr>,
      \<lparr>candidate = \<lparr>element = ''b'', index = 1\<rparr>, reference = \<lparr>element = ''b'', index = 2\<rparr>,
       score = \<lparr>precision = 1, recall = 1, f1 = 1\<rparr>\<rparr>,
      \<lparr>candidate = \<lparr>element = ''c'', index = 2\<rparr>, reference = \<lparr>element = ''c'', index = 1\<rparr>,
       score = \<lparr>precision = 1, recall = 1, f1 = 1\<rparr>\<rparr>] 3 \<noteq> 1 / 3"
  by (simp add: calculate_kendall_tau_def kendall_tau_b_example py_round_def round_half_even_def)

subsection \<open>Source cleaner\<close>

lemma clean_texfile_lines:
  "clean_texfile t =
     join [newline]
       (map (\<lambda>l. sub_spaces (py_strip l))
          (filter (\<lambda>l. \<not> startswith l ''%'' \<and> py_strip l \<noteq> []) (split_on newline t)))"
  by (simp add: clean_texfile_def filter_map comp_def conj_commute)

text \<open>
  C8. The cleaner tests for the comment marker before it strips the line, so a comment
  line that is indented is not dropped: it is kept, stripped. On the input below the
  first line's first non-space character is \<open>%\<close>, and the line survives.
\<close>

theorem clean_texfile_indented_comment:
  "clean_texfile (''  % note'' @ [newline] @ ''a   b'' @ [newline] @ ''%x'' @ [newline] @ ''  '')
     = ''% note'' @ [newline] @ ''a b''"
  by (simp add: clean_texfile_def startswith_def py_strip_def is_space_def newline_def space_def)

subsection \<open>Frame lookup\<close>

lemma in_py_range: "i \<in> set (py_range n) \<longleftrightarrow> 0 \<le> i \<and> i < n"
proof
  assume "i \<in> set (py_range n)"
  then show "0 \<le> i \<and> i < n" by (auto simp: py_range_def)
next
  assume b: "0 \<le> i \<and> i < n"
  then have "nat i \<in> set [0..<nat n]" by auto
  then have "int (nat i) \<in> int ` set [0..<nat n]" by (rule imageI)
  with b show "i \<in> set (py_range n)" by (simp add: py_range_def)
qed

text \<open>
  C10. For every integer index, \<open>frame(index)\<close> returns \<open>None\<close>, and raises nothing, when
  the index is outside \<open>[0, frame_count)\<close>, and otherwise returns the index-th frame in
  document order: the index-th of the descendants of the document that are nodes called
  \<open>frame\<close>, taken in the order of the pre-order traversal, of which \<open>frame_count\<close> is the
  number. \<open>slide\<close> is the same function.
\<close>

theorem frame_index_bounds:
  "frame soup i =
     (if 0 \<le> i \<and> i < int (length (filter (is_named ''frame'') (descendants soup)))
      then Inr (Some (filter (is_named ''frame'') (descendants soup) ! nat i))
      else Inr None)
   \<and> slide soup i = frame soup i
   \<and> frame_count soup = int (length (filter (is_named ''frame'') (descendants soup)))"
  by (simp add: frame_def slide_def in_py_range py_getitem_def frame_count_def frames_def
        find_all_def)

theorem frame_index_bounds_witness:
  "frame (Node 0 ''[tex]'' []
            [Node 1 ''section'' [] [Tok ''s''],
             Node 2 ''frame'' [] [Tok ''a''],
             Node 3 ''center'' [] [Node 4 ''frame'' [] [Tok ''b'']],
             Node 5 ''frame'' [] [Tok ''c'']]) 1
     = Inr (Some (Node 4 ''frame'' [] [Tok ''b'']))
   \<and> frame (Node 0 ''[tex]'' []
            [Node 1 ''section'' [] [Tok ''s''],
             Node 2 ''frame'' [] [Tok ''a''],
             Node 3 ''center'' [] [Node 4 ''frame'' [] [Tok ''b'']],
             Node 5 ''frame'' [] [Tok ''c'']]) 3
     = Inr None
   \<and> slide (Node 0 ''[tex]'' []
            [Node 1 ''section'' [] [Tok ''s''],
             Node 2 ''frame'' [] [Tok ''a''],
             Node 3 ''center'' [] [Node 4 ''frame'' [] [Tok ''b'']],
             Node 5 ''frame'' [] [Tok ''c'']]) (- 1)
     = Inr None"
  using
    frame_index_bounds [of "Node 0 ''[tex]'' []
            [Node 1 ''section'' [] [Tok ''s''],
             Node 2 ''frame'' [] [Tok ''a''],
             Node 3 ''center'' [] [Node 4 ''frame'' [] [Tok ''b'']],
             Node 5 ''frame'' [] [Tok ''c'']]" 1]
    frame_index_bounds [of "Node 0 ''[tex]'' []
            [Node 1 ''section'' [] [Tok ''s''],
             Node 2 ''frame'' [] [Tok ''a''],
             Node 3 ''center'' [] [Node 4 ''frame'' [] [Tok ''b'']],
             Node 5 ''frame'' [] [Tok ''c'']]" 3]
    frame_index_bounds [of "Node 0 ''[tex]'' []
            [Node 1 ''section'' [] [Tok ''s''],
             Node 2 ''frame'' [] [Tok ''a''],
             Node 3 ''center'' [] [Node 4 ''frame'' [] [Tok ''b'']],
             Node 5 ''frame'' [] [Tok ''c'']]" "- 1"]
  by (simp add: is_named_def)

subsection \<open>Frame titles\<close>

text \<open>
  C7. The title of a frame is found in this order, the first match winning: (a) the
  document title, if the document has one and the frame contains a \<open>titlepage\<close> marker;
  (b) the string of the frame's first argument, or, if that string contains
  \<open>\titlepage\<close>, the document title (nothing if the document has none); (c) with no
  argument, the first text segment of the frame's first \<open>frametitle\<close> command; (d)
  otherwise nothing. A failed extraction (an argument whose string is not a \<open>str\<close>, a
  \<open>frametitle\<close> without text, a frame that is not a node) gives \<open>None\<close>; no exception
  leaves the function.
\<close>

theorem get_frame_title_priority:
  "get_frame_title L soup (Node i n a cs) =
     (if truthy (title L soup) \<and> find_tex ''titlepage'' (Node i n a cs) \<noteq> None
      then title L soup
      else
        (case a of
           PStr s # ts \<Rightarrow>
             if py_in titlepage_marker s
             then (if truthy (title L soup) then title L soup else None)
             else Some s
         | PNone # ts \<Rightarrow> None
         | [] \<Rightarrow>
             (case find_tex ''frametitle'' (Node i n a cs) of
                Some ft \<Rightarrow> (case lib_text L ft of t # ts \<Rightarrow> Some t | [] \<Rightarrow> None)
              | None \<Rightarrow> None)))
   \<and> get_frame_title L soup (Tok s') = None"
  by (auto simp: get_frame_title_def frame_title_body_def
           split: list.splits pyval.splits option.splits)

theorem get_frame_title_priority_witness:
  "get_frame_title plain_lib
     (Node 0 ''[tex]'' [] [Node 1 ''title'' [PStr ''Talk''] [Tok ''Talk'']])
     (Node 2 ''frame'' [PStr ''Ignored''] [Node 3 ''titlepage'' [] []]) = Some ''Talk''
   \<and> get_frame_title plain_lib
     (Node 0 ''[tex]'' [] [Node 1 ''title'' [PStr ''Talk''] [Tok ''Talk'']])
     (Node 2 ''frame'' [PStr ''Outline''] [Node 3 ''frametitle'' [PStr ''Other''] [Tok ''Other'']])
       = Some ''Outline''
   \<and> get_frame_title plain_lib
     (Node 0 ''[tex]'' [] [])
     (Node 2 ''frame'' [PStr (CHR 0x5C # ''titlepage'')] []) = None
   \<and> get_frame_title plain_lib
     (Node 0 ''[tex]'' [] [Node 1 ''title'' [PStr ''Talk''] [Tok ''Talk'']])
     (Node 2 ''frame'' [] [Tok ''x'', Node 3 ''frametitle'' [PStr ''Results''] [Tok ''Results'']])
       = Some ''Results''
   \<and> get_frame_title plain_lib
     (Node 0 ''[tex]'' [] [Node 1 ''title'' [PStr ''Talk''] [Tok ''Talk'']])
     (Node 2 ''frame'' [] [Tok ''x'']) = None
   \<and> get_frame_title plain_lib
     (Node 0 ''[tex]'' [] [Node 1 ''title'' [PStr ''Talk''] [Tok ''Talk'']])
     (Node 2 ''frame'' [PNone] [Tok ''x'']) = None
   \<and> get_frame_title plain_lib
     (Node 0 ''[tex]'' [] [Node 1 ''title'' [PStr ''Talk''] [Tok ''Talk'']])
     (Node 2 ''frame'' [] [Node 3 ''frametitle'' [] []]) = None"
  using
    get_frame_title_priority [of plain_lib
      "Node 0 ''[tex]'' [] [Node 1 ''title'' [PStr ''Talk''] [Tok ''Talk'']]"
      2 "''frame''" "[PStr ''Ignored'']" "[Node 3 ''titlepage'' [] []]"]
    get_frame_title_priority [of plain_lib
      "Node 0 ''[tex]'' [] [Node 1 ''title'' [PStr ''Talk''] [Tok ''Talk'']]"
      2 "''frame''" "[PStr ''Outline'']" "[Node 3 ''frametitle'' [PStr ''Other''] [Tok ''Other'']]"]
    get_frame_title_priority [of plain_lib
      "Node 0 ''[tex]'' [] []"
      2 "''frame''" "[PStr (CHR 0x5C # ''titlepage'')]" "[]"]
    get_frame_title_priority [of plain_lib
      "Node 0 ''[tex]'' [] [Node 1 ''title'' [PStr ''Talk''] [Tok ''Talk'']]"
      2 "''frame''" "[]" "[Tok ''x'', Node 3 ''frametitle'' [PStr ''Results''] [Tok ''Results'']]"]
    get_frame_title_priority [of plain_lib
      "Node 0 ''[tex]'' [] [Node 1 ''title'' [PStr ''Talk''] [Tok ''Talk'']]"
      2 "''frame''" "[]" "[Tok ''x'']"]
    get_frame_title_priority [of plain_lib
      "Node 0 ''[tex]'' [] [Node 1 ''title'' [PStr ''Talk''] [Tok ''Talk'']]"
      2 "''frame''" "[PNone]" "[Tok ''x'']"]
    get_frame_title_priority [of plain_lib
      "Node 0 ''[tex]'' [] [Node 1 ''title'' [PStr ''Talk''] [Tok ''Talk'']]"
      2 "''frame''" "[]" "[Node 3 ''frametitle'' [] []]"]
  by (simp add: title_def find_tex_def find_all_def is_named_def truthy_def plain_lib_def
                titlepage_marker_def startswith_def)

subsection \<open>Bibliography entries\<close>









subsection \<open>Section extraction\<close>

lemma scan_node_off:
  "\<not> st_parse st \<Longrightarrow> \<not> is_named ''section'' x \<Longrightarrow> scan_node L x st = st"
  by (simp add: scan_node_def)

lemma scan_off:
  "\<not> st_parse st \<Longrightarrow> \<forall>x \<in> set mid. \<not> is_named ''section'' x \<Longrightarrow> scan L mid st = st"
  by (induction mid) (simp_all add: scan_def scan_node_off)

lemma scan_node_stop:
  assumes "is_stop x" and "st_parse st"
  shows "scan_node L x st = st\<lparr>st_parse := False\<rparr>"
proof (cases x)
  case (Tok s)
  with assms show ?thesis by (simp add: is_stop_def is_named_def)
next
  case (Node i n a cs)
  with assms(1) have "n = ''bibliography'' \<or> n = ''bibliographystyle'' \<or> n = ''appendix''"
    by (simp add: is_stop_def is_named_def)
  then show ?thesis
    using assms(2) Node
    by (elim disjE) (simp_all add: scan_node_def is_named_def labels_def symbols_def)
qed

lemma scan_node_section:
  "is_named ''section'' x \<Longrightarrow> scan_node L x (st\<lparr>st_parse := b\<rparr>) = scan_node L x st"
  by (simp add: scan_node_def)

lemma scan_append: "scan L (xs @ ys) st = scan L ys (scan L xs st)"
  by (simp add: scan_def)

lemma scan_Cons: "scan L (x # xs) st = scan L xs (scan_node L x st)"
  by (simp add: scan_def)

lemma scan_suspended:
  assumes stop: "is_stop stop"
    and mid: "\<forall>x \<in> set mid. \<not> is_named ''section'' x"
    and rest: "ends_or_starts_with ''section'' rest"
  shows "st_sections (scan L (stop # mid @ rest) st) = st_sections (scan L rest st)"
proof (cases "st_parse st")
  case False
  from stop have "\<not> is_named ''section'' stop"
    by (cases stop) (auto simp: is_stop_def is_named_def)
  with False have "scan_node L stop st = st" by (simp add: scan_node_off)
  with False mid show ?thesis by (simp add: scan_Cons scan_append scan_off)
next
  case True
  with stop have "scan_node L stop st = st\<lparr>st_parse := False\<rparr>" by (rule scan_node_stop)
  moreover have "scan L mid (st\<lparr>st_parse := False\<rparr>) = st\<lparr>st_parse := False\<rparr>"
    using mid by (intro scan_off) simp_all
  ultimately have eq: "scan L (stop # mid @ rest) st = scan L rest (st\<lparr>st_parse := False\<rparr>)"
    by (simp add: scan_Cons scan_append)
  show ?thesis
  proof (cases rest)
    case Nil
    with eq show ?thesis by (simp add: scan_def)
  next
    case (Cons s rest')
    with rest have "is_named ''section'' s" by (simp add: ends_or_starts_with_def)
    with eq Cons show ?thesis by (simp add: scan_Cons scan_node_section)
  qed
qed

text \<open>
  C2 (as amended). During section extraction a \<open>bibliography\<close>, \<open>bibliographystyle\<close> or
  \<open>appendix\<close> command suspends parsing until the next \<open>section\<close> command: the command
  and everything after it up to, but not including, the next \<open>section\<close> command (or up
  to the end of the document, if no \<open>section\<close> follows) contribute nothing to the returned
  sections, which are those of the document without that stretch. Parsing resumes at the
  next \<open>section\<close> command: the document \<open>\section{A} ... \bibliography{refs} \section{B}\<close>
  yields two sections, A and B.
\<close>

theorem sections_suspended_until_section:
  assumes "find_tex ''document'' soup = Some document"
    and "descendants document = pre @ stop # mid @ rest"
    and "is_stop stop"
    and "\<forall>x \<in> set mid. \<not> is_named ''section'' x"
    and "ends_or_starts_with ''section'' rest"
  shows "sections L soup = st_sections (scan L (pre @ rest) scan_init)"
  using assms by (simp add: sections_def scan_append scan_suspended)

theorem sections_suspended_until_section_witness:
  "sections plain_lib (Node 0 ''[tex]'' []
       [Node 1 ''document'' []
          [Node 2 ''section'' [PStr ''A''] [Tok ''A''], Tok ''text'',
           Node 3 ''bibliography'' [PStr ''refs''] [Tok ''refs''],
           Node 4 ''section'' [PStr ''B''] [Tok ''B'']]])
   = st_sections (scan plain_lib
       ([Node 2 ''section'' [PStr ''A''] [Tok ''A''], Tok ''A'', Tok ''text''] @
        [Node 4 ''section'' [PStr ''B''] [Tok ''B''], Tok ''B'']) scan_init)"
  by (rule sections_suspended_until_section [where
        document = "Node 1 ''document'' []
          [Node 2 ''section'' [PStr ''A''] [Tok ''A''], Tok ''text'',
           Node 3 ''bibliography'' [PStr ''refs''] [Tok ''refs''],
           Node 4 ''section'' [PStr ''B''] [Tok ''B'']]"
        and stop = "Node 3 ''bibliography'' [PStr ''refs''] [Tok ''refs'']"
        and mid = "[Tok ''refs'']"])
     (simp_all add: find_tex_def find_all_def is_named_def is_stop_def ends_or_starts_with_def)

text \<open>
  The claim as stated fails: a \<open>section\<close> command after \<open>\bibliography\<close> switches
  parsing on again, and the section B is returned.
\<close>

theorem sections_resume_after_bibliography:
  "map sec_section (sections plain_lib (Node 0 ''[tex]'' []
       [Node 1 ''document'' []
          [Node 2 ''section'' [PStr ''A''] [Tok ''A''], Tok ''text'',
           Node 3 ''bibliography'' [PStr ''refs''] [Tok ''refs''],
           Node 4 ''section'' [PStr ''B''] [Tok ''B'']]]))
     = [PStr ''A'', PStr ''B'']
   \<and> length (sections plain_lib (Node 0 ''[tex]'' []
       [Node 1 ''document'' []
          [Node 2 ''section'' [PStr ''A''] [Tok ''A''], Tok ''text'',
           Node 3 ''bibliography'' [PStr ''refs''] [Tok ''refs''],
           Node 4 ''section'' [PStr ''B''] [Tok ''B'']]])) \<noteq> 1"
  by (simp add: sections_def find_tex_def find_all_def is_named_def scan_def scan_node_def
        scan_init_def plain_lib_def labels_def symbols_def append_data_def update_last_def
        strip_newlines_def newline_def)

subsection \<open>Consecutive duplicate frames\<close>

lemma in_ids_delete_ids [simp]: "in_ids D (delete_ids E t) = in_ids D t"
  by (cases t) (simp_all add: in_ids_def)

lemma in_ids_delete_id [simp]: "in_ids D (delete_id i t) = in_ids D t"
  by (cases t) (simp_all add: in_ids_def)

lemma has_ident_delete_ids [simp]: "has_ident i (delete_ids E t) = has_ident i t"
  by (cases t) (simp_all add: has_ident_def)

lemma is_named_delete_ids [simp]: "is_named n (delete_ids E t) = is_named n t"
  by (cases t) (simp_all add: is_named_def)

lemma in_ids_insert: "in_ids (insert i D) t \<longleftrightarrow> has_ident i t \<or> in_ids D t"
  by (cases t) (auto simp: in_ids_def has_ident_def)

lemma has_ident_delete_id [simp]: "has_ident i (delete_id j t) = has_ident i t"
  by (cases t) (simp_all add: has_ident_def)

lemma in_ids_empty [simp]: "in_ids {} t = False"
  by (cases t) (simp_all add: in_ids_def)

lemma delete_ids_empty [simp]: "delete_ids {} t = t"
  by (induction t) (simp_all add: map_idI)





lemma find_all_Node:
  "find_all name (Node j n a cs) =
     concat (map (\<lambda>c. (if is_named name c then [c] else []) @ find_all name c) cs)"
  by (induction cs) (simp_all add: find_all_def)





lemma is_named_is_node: "is_named name f \<Longrightarrow> is_node f"
  by (cases f) (simp_all add: is_named_def is_node_def)

lemma find_all_nodes: "f \<in> set (find_all name t) \<Longrightarrow> is_node f \<and> is_named name f \<and> f \<in> set (descendants t)"
  by (auto simp: find_all_def is_named_is_node)


lemma descendants_trans:
  "d \<in> set (descendants t) \<Longrightarrow> set (descendants d) \<subseteq> set (descendants t)"
proof (induction t)
  case (Tok s)
  then show ?case by simp
next
  case (Node j n a cs)
  then obtain c where c: "c \<in> set cs" and d: "d = c \<or> d \<in> set (descendants c)" by auto
  from d have "set (descendants d) \<subseteq> set (descendants c)"
    using Node.IH [OF c] by auto
  with c show ?case by auto
qed

lemma in_ids_node: "is_node f \<Longrightarrow> in_ids D f \<longleftrightarrow> ident f \<in> D"
  by (cases f) (simp_all add: in_ids_def is_node_def)

lemma in_ids_is_node: "in_ids D f \<Longrightarrow> is_node f"
  by (cases f) (simp_all add: in_ids_def is_node_def)












subsection \<open>Import resolution\<close>

lemma concat_map_unchanged:
  "(\<And>x. x \<in> set xs \<Longrightarrow> \<not> P x \<and> f x = x) \<Longrightarrow>
     concat (map (\<lambda>x. if P x then new x else [f x]) xs) = xs"
  by (induction xs) auto

lemma concat_map_concat_map:
  "concat (map f (concat (map g cs))) = concat (map (\<lambda>c. concat (map f (g c))) cs)"
  by (induction cs) simp_all

lemma all_ids_alt: "all_ids c = map ident (filter is_node (c # descendants c))"
  by (cases c) (simp_all add: all_ids_def node_ids_def is_node_def)

lemma node_ids_Node:
  "node_ids (Node j n a cs) = concat (map all_ids cs)"
proof -
  have "node_ids (Node j n a cs)
      = concat (map (\<lambda>c. map ident (filter is_node (c # descendants c))) cs)"
    unfolding node_ids_def descendants.simps
    by (simp only: filter_concat map_concat map_map comp_def)
  then show ?thesis by (simp only: all_ids_alt [symmetric])
qed

lemma has_ident_all_ids: "has_ident i t \<Longrightarrow> i \<in> set (all_ids t)"
  by (cases t) (simp_all add: has_ident_def all_ids_def)

lemma node_ids_all_ids: "set (node_ids t) \<subseteq> set (all_ids t)"
  by (cases t) (auto simp: all_ids_def node_ids_def)

lemma replace_id_absent: "i \<notin> set (node_ids t) \<Longrightarrow> replace_id i new t = t"
proof (induction t)
  case (Tok s)
  show ?case by simp
next
  case (Node j n a cs)
  have "\<And>c. c \<in> set cs \<Longrightarrow> \<not> has_ident i c \<and> replace_id i new c = c"
  proof -
    fix c assume c: "c \<in> set cs"
    with Node.prems have ni: "i \<notin> set (all_ids c)" by (auto simp: node_ids_Node)
    then have "\<not> has_ident i c" using has_ident_all_ids by blast
    moreover from ni node_ids_all_ids have "i \<notin> set (node_ids c)" by blast
    with c have "replace_id i new c = c" by (rule Node.IH)
    ultimately show "\<not> has_ident i c \<and> replace_id i new c = c" ..
  qed
  then have "concat (map (\<lambda>c. if has_ident i c then new else [replace_id i new c]) cs) = cs"
    by (rule concat_map_unchanged)
  then show ?case by simp
qed

lemma replace_in_absent:
  "\<forall>e \<in> set (descendants t). \<not> in_ids D e \<Longrightarrow> replace_in D \<sigma> t = t"
proof (induction t)
  case (Tok s)
  show ?case by simp
next
  case (Node j n a cs)
  have "\<And>c. c \<in> set cs \<Longrightarrow> \<not> in_ids D c \<and> replace_in D \<sigma> c = c"
  proof -
    fix c assume c: "c \<in> set cs"
    with Node.prems have "\<not> in_ids D c" by auto
    moreover have "replace_in D \<sigma> c = c"
      using c Node.prems by (intro Node.IH) auto
    ultimately show "\<not> in_ids D c \<and> replace_in D \<sigma> c = c" ..
  qed
  then have "concat (map (\<lambda>c. if in_ids D c then \<sigma> c else [replace_in D \<sigma> c]) cs) = cs"
    by (rule concat_map_unchanged)
  then show ?case by simp
qed

lemma replace_in_empty [simp]: "replace_in {} \<sigma> t = t"
  by (rule replace_in_absent) simp

lemma has_ident_replace_in [simp]: "has_ident i (replace_in D \<sigma> t) = has_ident i t"
  by (cases t) (simp_all add: has_ident_def)

lemma replace_id_step:
  assumes "\<forall>c \<in> set (descendants t). has_ident i c \<longrightarrow> \<sigma> c = new"
    and "\<forall>c \<in> set (descendants t). in_ids D c \<longrightarrow> (\<forall>x \<in> set (\<sigma> c). i \<notin> set (all_ids x))"
  shows "replace_id i new (replace_in D \<sigma> t) = replace_in (insert i D) \<sigma> t"
  using assms
proof (induction t)
  case (Tok s)
  show ?case by simp
next
  case (Node j n a cs)
  have child: "concat (map (\<lambda>x. if has_ident i x then new else [replace_id i new x])
                   (if in_ids D c then \<sigma> c else [replace_in D \<sigma> c]))
      = (if in_ids (insert i D) c then \<sigma> c else [replace_in (insert i D) \<sigma> c])"
    if c: "c \<in> set cs" for c
  proof -
    have sub: "set (descendants c) \<subseteq> set (descendants (Node j n a cs))" and
      cd: "c \<in> set (descendants (Node j n a cs))"
      using c by auto
    show ?thesis
    proof (cases "in_ids D c")
      case True
      with Node.prems(2) cd have fresh: "\<forall>x \<in> set (\<sigma> c). i \<notin> set (all_ids x)" by blast
      have "\<And>x. x \<in> set (\<sigma> c) \<Longrightarrow> \<not> has_ident i x \<and> replace_id i new x = x"
        using fresh has_ident_all_ids node_ids_all_ids replace_id_absent by blast
      then have "concat (map (\<lambda>x. if has_ident i x then new else [replace_id i new x]) (\<sigma> c)) = \<sigma> c"
        by (rule concat_map_unchanged)
      with True show ?thesis by (simp add: in_ids_insert)
    next
      case False
      show ?thesis
      proof (cases "has_ident i c")
        case True
        with Node.prems(1) cd have "\<sigma> c = new" by blast
        with True False show ?thesis by (simp add: in_ids_insert)
      next
        case nh: False
        have "replace_id i new (replace_in D \<sigma> c) = replace_in (insert i D) \<sigma> c"
          using c sub Node.prems by (intro Node.IH) blast+
        with False nh show ?thesis by (simp add: in_ids_insert)
      qed
    qed
  qed
  have "replace_id i new (replace_in D \<sigma> (Node j n a cs))
      = Node j n a (concat (map (\<lambda>c. concat (map (\<lambda>x. if has_ident i x then new else [replace_id i new x])
                   (if in_ids D c then \<sigma> c else [replace_in D \<sigma> c]))) cs))"
    by (simp add: concat_map_concat_map)
  also have "\<dots> = Node j n a (concat (map (\<lambda>c. if in_ids (insert i D) c then \<sigma> c
                                           else [replace_in (insert i D) \<sigma> c]) cs))"
    using child by (auto intro!: arg_cong [where f = concat] map_cong)
  finally show ?case by simp
qed

lemma is_named_replace_in [simp]: "is_named k (replace_in D \<sigma> t) = is_named k t"
  by (cases t) (simp_all add: is_named_def)

lemma find_all_replace_in:
  assumes "\<forall>c \<in> set (descendants t). in_ids D c \<longrightarrow>
             \<not> is_named k c \<and> find_all k c = [] \<and>
             (\<forall>x \<in> set (\<sigma> c). \<not> is_named k x \<and> find_all k x = [])"
    and "\<forall>c \<in> set (descendants t). is_named k c \<longrightarrow> (\<forall>e \<in> set (descendants c). \<not> in_ids D e)"
  shows "find_all k (replace_in D \<sigma> t) = find_all k t"
  using assms
proof (induction t)
  case (Tok s)
  show ?case by simp
next
  case (Node j n a cs)
  let ?h = "\<lambda>x. (if is_named k x then [x] else []) @ find_all k x"
  have child: "concat (map ?h (if in_ids D c then \<sigma> c else [replace_in D \<sigma> c])) = ?h c"
    if c: "c \<in> set cs" for c
  proof -
    have sub: "set (descendants c) \<subseteq> set (descendants (Node j n a cs))" and
      cd: "c \<in> set (descendants (Node j n a cs))"
      using c by auto
    show ?thesis
    proof (cases "in_ids D c")
      case True
      with Node.prems(1) cd have c0: "\<not> is_named k c \<and> find_all k c = []"
        and x0: "\<forall>x \<in> set (\<sigma> c). \<not> is_named k x \<and> find_all k x = []" by blast+
      from x0 have "concat (map ?h (\<sigma> c)) = []" by (induction "\<sigma> c") auto
      with True c0 show ?thesis by simp
    next
      case False
      show ?thesis
      proof (cases "is_named k c")
        case True
        with Node.prems(2) cd have "\<forall>e \<in> set (descendants c). \<not> in_ids D e" by blast
        then have "replace_in D \<sigma> c = c" by (rule replace_in_absent)
        with False show ?thesis by simp
      next
        case nn: False
        have "find_all k (replace_in D \<sigma> c) = find_all k c"
          using c sub Node.prems by (intro Node.IH) blast+
        with False nn show ?thesis by simp
      qed
    qed
  qed
  have "find_all k (replace_in D \<sigma> (Node j n a cs))
      = concat (map (\<lambda>c. concat (map ?h (if in_ids D c then \<sigma> c else [replace_in D \<sigma> c]))) cs)"
    unfolding replace_in.simps find_all_Node by (rule concat_map_concat_map)
  also have "\<dots> = concat (map ?h cs)"
    using child by (auto intro!: arg_cong [where f = concat] map_cong)
  finally show ?case by (simp only: find_all_Node)
qed

lemma in_ids_mono: "in_ids D c \<Longrightarrow> D \<subseteq> E \<Longrightarrow> in_ids E c"
  by (cases c) (auto simp: in_ids_def)

lemma fold_replace:
  assumes "\<forall>d \<in> set ds. \<forall>c \<in> set (descendants t). has_ident (ident d) c \<longrightarrow> \<sigma> c = \<sigma> d"
    and "\<forall>c \<in> set (descendants t). in_ids (D \<union> ident ` set ds) c \<longrightarrow>
           (\<forall>x \<in> set (\<sigma> c). \<forall>d \<in> set ds. ident d \<notin> set (all_ids x))"
  shows "fold (\<lambda>d. replace_id (ident d) (\<sigma> d)) ds (replace_in D \<sigma> t)
           = replace_in (D \<union> ident ` set ds) \<sigma> t"
  using assms
proof (induction ds arbitrary: D)
  case Nil
  show ?case by simp
next
  case (Cons d ds)
  have step: "replace_id (ident d) (\<sigma> d) (replace_in D \<sigma> t) = replace_in (insert (ident d) D) \<sigma> t"
  proof (rule replace_id_step)
    show "\<forall>c \<in> set (descendants t). has_ident (ident d) c \<longrightarrow> \<sigma> c = \<sigma> d"
      using Cons.prems(1) by simp
    show "\<forall>c \<in> set (descendants t). in_ids D c \<longrightarrow> (\<forall>x \<in> set (\<sigma> c). ident d \<notin> set (all_ids x))"
    proof (intro ballI impI)
      fix c x assume c: "c \<in> set (descendants t)" and i: "in_ids D c" and x: "x \<in> set (\<sigma> c)"
      from i have "in_ids (D \<union> ident ` set (d # ds)) c" by (rule in_ids_mono) auto
      with Cons.prems(2) c x show "ident d \<notin> set (all_ids x)" by auto
    qed
  qed
  have "fold (\<lambda>d. replace_id (ident d) (\<sigma> d)) ds (replace_in (insert (ident d) D) \<sigma> t)
      = replace_in (insert (ident d) D \<union> ident ` set ds) \<sigma> t"
  proof (rule Cons.IH)
    show "\<forall>d \<in> set ds. \<forall>c \<in> set (descendants t). has_ident (ident d) c \<longrightarrow> \<sigma> c = \<sigma> d"
      using Cons.prems(1) by simp
    show "\<forall>c \<in> set (descendants t). in_ids (insert (ident d) D \<union> ident ` set ds) c \<longrightarrow>
           (\<forall>x \<in> set (\<sigma> c). \<forall>d \<in> set ds. ident d \<notin> set (all_ids x))"
      using Cons.prems(2) by simp
  qed
  with step show ?case by simp
qed

lemma replace_loop_fold:
  "\<forall>d \<in> set ds. f d = Some (Inr (\<sigma> d)) \<Longrightarrow>
     replace_loop f ds soup = Some (Inr (fold (\<lambda>d. replace_id (ident d) (\<sigma> d)) ds soup))"
  by (induction ds arbitrary: soup) simp_all

lemma node_unique:
  assumes "distinct (node_ids t)" and "c \<in> set (descendants t)" and "d \<in> set (descendants t)"
    and "is_node c" and "is_node d" and "ident c = ident d"
  shows "c = d"
proof -
  from assms(1) have "inj_on ident (set (filter is_node (descendants t)))"
    by (simp add: node_ids_def distinct_map)
  with assms(2-) show ?thesis by (auto dest: inj_onD)
qed

lemma is_kind_is_node: "is_kind K c \<Longrightarrow> is_node c"
  by (cases c) (simp_all add: is_kind_def is_node_def)

lemma in_kind_ids:
  assumes "distinct (node_ids t)" and "c \<in> set (descendants t)" and "in_ids (kind_ids K t) c"
  shows "is_kind K c"
proof -
  from assms(3) have nc: "is_node c" by (rule in_ids_is_node)
  with assms(3) obtain d where d: "d \<in> set (descendants t)" "is_kind K d" "ident d = ident c"
    by (auto simp: in_ids_node kind_ids_def)
  with assms(1,2) nc have "c = d" by (intro node_unique [of t]) (auto simp: is_kind_is_node)
  with d show ?thesis by simp
qed

lemma kind_ids_in: "c \<in> set (descendants t) \<Longrightarrow> is_kind K c \<Longrightarrow> in_ids (kind_ids K t) c"
  by (auto simp: in_ids_node is_kind_is_node kind_ids_def)

lemma replace_in_splice:
  "\<forall>c \<in> set (descendants t). in_ids D c \<longleftrightarrow> is_directive c \<Longrightarrow> replace_in D \<sigma> t = splice \<sigma> t"
proof (induction t)
  case (Tok s)
  show ?case by simp
next
  case (Node j n a cs)
  have "(if in_ids D c then \<sigma> c else [replace_in D \<sigma> c])
      = (if is_directive c then \<sigma> c else [splice \<sigma> c])" if c: "c \<in> set cs" for c
  proof -
    from c Node.prems have "in_ids D c \<longleftrightarrow> is_directive c" by auto
    moreover have "replace_in D \<sigma> c = splice \<sigma> c"
      using c Node.prems by (intro Node.IH) auto
    ultimately show ?thesis by simp
  qed
  then show ?case by (auto intro!: arg_cong [where f = concat] map_cong)
qed

lemma is_named_kind: "is_named k c \<longleftrightarrow> is_kind {k} c"
  by (cases c) (simp_all add: is_named_def is_kind_def)

lemma is_kind_mono: "is_kind K c \<Longrightarrow> K \<subseteq> K' \<Longrightarrow> is_kind K' c"
  by (cases c) (auto simp: is_kind_def)

lemma is_kind_insert: "is_kind (insert k K) c \<longleftrightarrow> is_named k c \<or> is_kind K c"
  by (cases c) (auto simp: is_named_def is_kind_def)

lemma kind_ids_insert: "kind_ids (insert k K) t = kind_ids K t \<union> ident ` set (find_all k t)"
  by (auto simp: kind_ids_def find_all_def is_kind_insert)

lemma kind_ids_empty [simp]: "kind_ids {} t = {}"
  by (auto simp: kind_ids_def is_kind_def split: tex.splits)

lemma then_res_assoc:
  "then_res (then_res r f) g = then_res r (\<lambda>x. then_res (f x) g)"
  by (simp add: then_res_def split: option.splits sum.splits)

lemma then_res_Inr [simp]: "then_res (Some (Inr x)) f = f x"
  by (simp add: then_res_def)

lemma spliced_children:
  assumes "\<not> is_named ''input'' d"
    and "resolved_root L fs n cwd d = Some (Inr r)" and "is_node r"
  shows "then_res (resolved_root L fs n cwd d) (\<lambda>r. lift_res (contents_of r))
           = Some (Inr (spliced L fs n cwd d))"
  using assms by (cases r) (simp_all add: spliced_def lift_res_def contents_of_def is_node_def)

lemma spliced_node:
  assumes "is_named ''input'' d"
    and "resolved_root L fs n cwd d = Some (Inr r)"
  shows "then_res (resolved_root L fs n cwd d) (\<lambda>r. Some (Inr [r]))
           = Some (Inr (spliced L fs n cwd d))"
  using assms by (simp add: spliced_def)

lemma resolved_root_plain:
  "\<not> is_named ''input'' d \<Longrightarrow>
     resolved_root L fs n cwd d =
       then_res (lift_res (arg_filename d))
         (\<lambda>path. then_res (lift_res (py_open fs path)) (resolve_imports L fs n))"
  by (simp add: resolved_root_def directive_path_def)

lemma resolved_root_input:
  "is_named ''input'' d \<Longrightarrow>
     resolved_root L fs n cwd d =
       then_res (lift_res (arg_filename d))
         (\<lambda>filename. then_res (lift_res (py_open fs (path_join cwd filename))) (resolve_imports L fs n))"
  by (cases d)
     (auto simp: resolved_root_def directive_path_def is_named_def then_res_def lift_res_def
           split: sum.splits)

lemma named_diff: "is_named k d \<Longrightarrow> k \<noteq> k' \<Longrightarrow> \<not> is_named k' d"
  by (cases d) (auto simp: is_named_def)

lemma is_directive_named:
  "k \<in> set directive_names \<Longrightarrow> is_named k c \<Longrightarrow> is_directive c"
  by (cases c) (auto simp: is_directive_def is_kind_def is_named_def)

lemma no_directive_find_all:
  "k \<in> set directive_names \<Longrightarrow> \<forall>e \<in> set (descendants x). \<not> is_directive e \<Longrightarrow> find_all k x = []"
  by (auto simp: find_all_def filter_empty_conv dest: is_directive_named)

lemma ident_in_node_ids: "d \<in> set (descendants t) \<Longrightarrow> is_node d \<Longrightarrow> ident d \<in> set (node_ids t)"
  by (auto simp: node_ids_def)

lemma resolvable_dist: "resolvable L fs n cwd soup \<Longrightarrow> distinct (node_ids soup)"
  by (simp add: resolvable_def)

lemma resolvable_dir:
  assumes "resolvable L fs n cwd soup" and "d \<in> set (descendants soup)" and "is_directive d"
  shows "(\<exists>r. resolved_root L fs n cwd d = Some (Inr r) \<and> is_node r) \<and>
         (\<forall>e \<in> set (descendants d). \<not> is_directive e) \<and>
         (\<forall>x \<in> set (spliced L fs n cwd d).
            \<not> is_directive x \<and> (\<forall>e \<in> set (descendants x). \<not> is_directive e) \<and>
            (\<forall>i \<in> set (all_ids x). i \<notin> set (node_ids soup)))"
proof -
  from assms(1) have "\<forall>d \<in> set (descendants soup). is_directive d \<longrightarrow>
         (\<exists>r. resolved_root L fs n cwd d = Some (Inr r) \<and> is_node r) \<and>
         (\<forall>e \<in> set (descendants d). \<not> is_directive e) \<and>
         (\<forall>x \<in> set (spliced L fs n cwd d).
            \<not> is_directive x \<and> (\<forall>e \<in> set (descendants x). \<not> is_directive e) \<and>
            (\<forall>i \<in> set (all_ids x). i \<notin> set (node_ids soup)))"
    unfolding resolvable_def by (elim conjE)
  from bspec [OF this assms(2)] assms(3) show ?thesis by (rule mp)
qed

lemma replace_pass:
  assumes res: "resolvable L fs n cwd soup"
    and K: "K \<subseteq> set directive_names" and k: "k \<in> set directive_names" and kK: "k \<notin> K"
    and f: "\<forall>d \<in> set (find_all k soup). f d = Some (Inr (spliced L fs n cwd d))"
  shows "replace_loop f (find_all k (replace_in (kind_ids K soup) (spliced L fs n cwd) soup))
           (replace_in (kind_ids K soup) (spliced L fs n cwd) soup)
         = Some (Inr (replace_in (kind_ids (insert k K) soup) (spliced L fs n cwd) soup))"
proof -
  let ?\<sigma> = "spliced L fs n cwd" and ?D = "kind_ids K soup"
  from res have dist: "distinct (node_ids soup)" by (rule resolvable_dist)
  have dirK: "is_directive c" if "c \<in> set (descendants soup)" "in_ids (kind_ids K' soup) c"
    "K' \<subseteq> set directive_names" for c K'
    unfolding is_directive_def using in_kind_ids [OF dist that(1,2)] that(3) by (rule is_kind_mono)
  have leaf: "\<forall>e \<in> set (descendants c). \<not> is_directive e"
    if "c \<in> set (descendants soup)" "is_directive c" for c
    using resolvable_dir [OF res that] by (elim conjE)
  have clean: "\<not> is_directive x \<and> (\<forall>e \<in> set (descendants x). \<not> is_directive e) \<and>
               (\<forall>i \<in> set (all_ids x). i \<notin> set (node_ids soup))"
    if "c \<in> set (descendants soup)" "is_directive c" "x \<in> set (?\<sigma> c)" for c x
  proof -
    from resolvable_dir [OF res that(1,2)] have
      "\<forall>x \<in> set (?\<sigma> c). \<not> is_directive x \<and> (\<forall>e \<in> set (descendants x). \<not> is_directive e) \<and>
            (\<forall>i \<in> set (all_ids x). i \<notin> set (node_ids soup))" by (elim conjE)
    from bspec [OF this that(3)] show ?thesis .
  qed
  have same: "find_all k (replace_in ?D ?\<sigma> soup) = find_all k soup"
  proof (rule find_all_replace_in; intro ballI impI)
    fix c assume c: "c \<in> set (descendants soup)" and i: "in_ids ?D c"
    from in_kind_ids [OF dist c i] kK have "\<not> is_named k c"
      by (cases c) (auto simp: is_kind_def is_named_def)
    moreover from dirK [OF c i K] have dc: "is_directive c" .
    from leaf [OF c dc] k have "find_all k c = []" by (intro no_directive_find_all)
    moreover have "\<forall>x \<in> set (?\<sigma> c). \<not> is_named k x \<and> find_all k x = []"
    proof
      fix x assume x: "x \<in> set (?\<sigma> c)"
      from clean [OF c dc x] have nx: "\<not> is_directive x"
        and ne: "\<forall>e \<in> set (descendants x). \<not> is_directive e" by simp_all
      from nx k have "\<not> is_named k x" using is_directive_named by blast
      moreover from k ne have "find_all k x = []" by (rule no_directive_find_all)
      ultimately show "\<not> is_named k x \<and> find_all k x = []" ..
    qed
    ultimately show "\<not> is_named k c \<and> find_all k c = [] \<and>
        (\<forall>x \<in> set (?\<sigma> c). \<not> is_named k x \<and> find_all k x = [])" by blast
  next
    fix c e assume c: "c \<in> set (descendants soup)" and nk: "is_named k c"
      and e: "e \<in> set (descendants c)"
    from k nk have dc: "is_directive c" by (rule is_directive_named)
    from c e descendants_trans have es: "e \<in> set (descendants soup)" by blast
    show "\<not> in_ids ?D e"
    proof
      assume "in_ids ?D e"
      from dirK [OF es this K] leaf [OF c dc] e show False by blast
    qed
  qed
  have loop: "replace_loop f (find_all k soup) (replace_in ?D ?\<sigma> soup)
      = Some (Inr (fold (\<lambda>d. replace_id (ident d) (?\<sigma> d)) (find_all k soup) (replace_in ?D ?\<sigma> soup)))"
    using f by (rule replace_loop_fold)
  have un: "?D \<union> ident ` set (find_all k soup) = kind_ids (insert k K) soup"
    by (simp add: kind_ids_insert)
  have "fold (\<lambda>d. replace_id (ident d) (?\<sigma> d)) (find_all k soup) (replace_in ?D ?\<sigma> soup)
      = replace_in (?D \<union> ident ` set (find_all k soup)) ?\<sigma> soup"
  proof (rule fold_replace; intro ballI impI)
    fix d c assume d: "d \<in> set (find_all k soup)" and c: "c \<in> set (descendants soup)"
      and h: "has_ident (ident d) c"
    from d have "is_node d" "d \<in> set (descendants soup)" using find_all_nodes by blast+
    moreover from h have "is_node c" "ident c = ident d"
      by (cases c; simp add: has_ident_def is_node_def)+
    ultimately have "c = d" using c by (intro node_unique [OF dist])
    then show "?\<sigma> c = ?\<sigma> d" by simp
  next
    fix c x d assume c: "c \<in> set (descendants soup)"
      and i: "in_ids (?D \<union> ident ` set (find_all k soup)) c"
      and x: "x \<in> set (?\<sigma> c)" and d: "d \<in> set (find_all k soup)"
    from i have "in_ids (kind_ids (insert k K) soup) c" by (simp only: un)
    from dirK [OF c this] K k have "is_directive c" by simp
    from clean [OF c this x] have "\<forall>i \<in> set (all_ids x). i \<notin> set (node_ids soup)" by simp
    moreover from d have "ident d \<in> set (node_ids soup)"
      using find_all_nodes ident_in_node_ids by blast
    ultimately show "ident d \<notin> set (all_ids x)" by blast
  qed
  with loop same un show ?thesis by simp
qed

text \<open>
  The three loops that do resolve. For every resolvable file, the tree that import
  resolution serialises, cleans and re-parses is the parsed file with every \<open>import\<close>,
  \<open>include\<close> and \<open>input\<close> node, at any depth, replaced in place: an \<open>import\<close> or
  \<open>include\<close> node by the contents (the children) of the resolved file's root, an \<open>input\<close>
  node by the resolved root node itself.
\<close>

lemma resolve_imports_splices:
  assumes res: "resolvable L fs n (dirname (fst file)) (lib_parse L (snd file))"
  shows "resolve_imports L fs (Suc n) file =
           Some (Inr (lib_parse L (clean_texfile (lib_str L
             (splice (spliced L fs n (dirname (fst file))) (lib_parse L (snd file)))))))
         \<and> (\<forall>d \<in> set (descendants (lib_parse L (snd file))). is_directive d \<longrightarrow>
              (\<exists>j name a cs. resolved_root L fs n (dirname (fst file)) d = Some (Inr (Node j name a cs))
                 \<and> spliced L fs n (dirname (fst file)) d =
                     (if is_named ''input'' d then [Node j name a cs] else cs)))"
proof
  let ?soup = "lib_parse L (snd file)" and ?cwd = "dirname (fst file)"
  let ?\<sigma> = "spliced L fs n ?cwd"
  let ?F2 = "\<lambda>d. then_res (lift_res (arg_filename d)) (\<lambda>filename.
                 then_res (then_res (lift_res (py_open fs filename)) (resolve_imports L fs n))
                   (\<lambda>r. lift_res (contents_of r)))"
  let ?F4 = "\<lambda>d. then_res (lift_res (arg_filename d)) (\<lambda>filename.
                 then_res (then_res (lift_res (py_open fs (path_join ?cwd filename)))
                            (resolve_imports L fs n))
                   (\<lambda>r. Some (Inr [r])))"
  have root: "\<exists>r. resolved_root L fs n ?cwd d = Some (Inr r) \<and> is_node r"
    if "d \<in> set (find_all k ?soup)" "k \<in> set directive_names" for d k
  proof -
    from that have "d \<in> set (descendants ?soup)" "is_directive d"
      using find_all_nodes is_directive_named by blast+
    from resolvable_dir [OF res this] show ?thesis by (elim conjE)
  qed
  have f2: "\<forall>d \<in> set (find_all k ?soup). ?F2 d = Some (Inr (?\<sigma> d))"
    if k: "k = ''import'' \<or> k = ''include''" for k
  proof
    fix d assume d: "d \<in> set (find_all k ?soup)"
    then have nd: "is_named k d" using find_all_nodes by blast
    with k have ni: "\<not> is_named ''input'' d"
      using named_diff [OF nd] by auto
    from root [OF d] k obtain r where r: "resolved_root L fs n ?cwd d = Some (Inr r)" "is_node r"
      by (auto simp: directive_names_def)
    have "?F2 d = then_res (resolved_root L fs n ?cwd d) (\<lambda>r. lift_res (contents_of r))"
      using ni by (simp add: resolved_root_plain then_res_assoc)
    also have "\<dots> = Some (Inr (?\<sigma> d))"
      using ni r by (intro spliced_children) auto
    finally show "?F2 d = Some (Inr (?\<sigma> d))" .
  qed
  have f4: "\<forall>d \<in> set (find_all ''input'' ?soup). ?F4 d = Some (Inr (?\<sigma> d))"
  proof
    fix d assume d: "d \<in> set (find_all ''input'' ?soup)"
    then have nd: "is_named ''input'' d" using find_all_nodes by blast
    from root [OF d] obtain r where r: "resolved_root L fs n ?cwd d = Some (Inr r)" "is_node r"
      by (auto simp: directive_names_def)
    have "?F4 d = then_res (resolved_root L fs n ?cwd d) (\<lambda>r. Some (Inr [r]))"
      using nd by (simp add: resolved_root_input then_res_assoc)
    also have "\<dots> = Some (Inr (?\<sigma> d))"
      using nd r by (intro spliced_node) auto
    finally show "?F4 d = Some (Inr (?\<sigma> d))" .
  qed
  let ?K2 = "{''import''}"
  let ?K3 = "insert ''include'' ?K2"
  let ?K4 = "insert ''input'' ?K3"
  from res have p1: "find_all ''subimport'' ?soup = []"
    by (simp add: resolvable_def)
  have p2: "replace_loop ?F2 (find_all ''import'' ?soup) ?soup
      = Some (Inr (replace_in (kind_ids ?K2 ?soup) ?\<sigma> ?soup))"
    using replace_pass [OF res _ _ _ f2, of "{}" "''import''"] by (simp add: directive_names_def)
  have p3: "replace_loop ?F2 (find_all ''include'' (replace_in (kind_ids ?K2 ?soup) ?\<sigma> ?soup))
           (replace_in (kind_ids ?K2 ?soup) ?\<sigma> ?soup)
      = Some (Inr (replace_in (kind_ids ?K3 ?soup) ?\<sigma> ?soup))"
    by (rule replace_pass [OF res _ _ _ f2]) (simp_all add: directive_names_def)
  have p4: "replace_loop ?F4 (find_all ''input'' (replace_in (kind_ids ?K3 ?soup) ?\<sigma> ?soup))
           (replace_in (kind_ids ?K3 ?soup) ?\<sigma> ?soup)
      = Some (Inr (replace_in (kind_ids ?K4 ?soup) ?\<sigma> ?soup))"
    by (rule replace_pass [OF res _ _ _ f4]) (simp_all add: directive_names_def)
  have Kall: "?K4 = set directive_names" by (auto simp: directive_names_def)
  have "replace_in (kind_ids ?K4 ?soup) ?\<sigma> ?soup = splice ?\<sigma> ?soup"
  proof (rule replace_in_splice, intro ballI iffI)
    fix c assume c: "c \<in> set (descendants ?soup)" and "in_ids (kind_ids ?K4 ?soup) c"
    from in_kind_ids [OF resolvable_dist [OF res] this] show "is_directive c"
      by (simp only: is_directive_def Kall)
  next
    fix c assume c: "c \<in> set (descendants ?soup)" and "is_directive c"
    then have "is_kind ?K4 c" by (simp only: is_directive_def Kall)
    with c show "in_ids (kind_ids ?K4 ?soup) c" by (rule kind_ids_in)
  qed
  with p1 p2 p3 p4
  show "resolve_imports L fs (Suc n) file =
           Some (Inr (lib_parse L (clean_texfile (lib_str L (splice ?\<sigma> ?soup)))))"
    by (simp add: Let_def)
next
  show "\<forall>d \<in> set (descendants (lib_parse L (snd file))). is_directive d \<longrightarrow>
              (\<exists>j name a cs. resolved_root L fs n (dirname (fst file)) d = Some (Inr (Node j name a cs))
                 \<and> spliced L fs n (dirname (fst file)) d =
                     (if is_named ''input'' d then [Node j name a cs] else cs))"
  proof (intro ballI impI)
    fix d assume "d \<in> set (descendants (lib_parse L (snd file)))" "is_directive d"
    from resolvable_dir [OF res this] obtain r where
      r: "resolved_root L fs n (dirname (fst file)) d = Some (Inr r)" "is_node r" by blast
    then obtain j name a cs where "r = Node j name a cs" by (cases r) (auto simp: is_node_def)
    with r show "\<exists>j name a cs. resolved_root L fs n (dirname (fst file)) d = Some (Inr (Node j name a cs))
                 \<and> spliced L fs n (dirname (fst file)) d =
                     (if is_named ''input'' d then [Node j name a cs] else cs)"
      by (auto simp: spliced_def)
  qed
qed

lemma demo_parse:
  "lib_parse demo_lib ''MAIN'' = Node 0 ''[tex]'' []
                [Node 4 ''section'' [PStr ''A''] [Tok ''A''],
                 Node 2 ''input'' [PStr ''b''] [Tok ''b''],
                 Node 3 ''include'' [PStr ''c''] [Tok ''c'']]"
  "lib_parse demo_lib ''B'' = Node 10 ''[tex]'' [] [Tok ''B'']"
  "lib_parse demo_lib ''C'' = Node 20 ''[tex]'' [] [Tok ''C'']"
  "lib_str demo_lib = render"
  by (simp_all add: demo_lib_def plain_lib_def)

lemma demo_clean: "clean_texfile ''B'' = ''B''" "clean_texfile ''C'' = ''C''"
  by (simp_all add: clean_texfile_def startswith_def py_strip_def is_space_def newline_def)

lemma demo_resolve_b: "resolve_imports demo_lib demo_files (Suc 0) (''b.tex'', ''B'') = Some (Inr (Node 10 ''[tex]'' [] [Tok ''B'']))"
  by (simp add: demo_parse demo_clean find_all_def is_named_def)

lemma demo_resolve_c: "resolve_imports demo_lib demo_files (Suc 0) (''c.tex'', ''C'') = Some (Inr (Node 20 ''[tex]'' [] [Tok ''C'']))"
  by (simp add: demo_parse demo_clean find_all_def is_named_def)

lemma demo_open:
  "py_open demo_files ''b.tex'' = Inr (''b.tex'', ''B'')"
  "py_open demo_files ''c.tex'' = Inr (''c.tex'', ''C'')"
  by (simp_all add: py_open_def demo_files_def)

lemma demo_roots:
  "resolved_root demo_lib demo_files (Suc 0) [] (Node 2 ''input'' [PStr ''b''] [Tok ''b''])
     = Some (Inr (Node 10 ''[tex]'' [] [Tok ''B'']))"
  "resolved_root demo_lib demo_files (Suc 0) [] (Node 3 ''include'' [PStr ''c''] [Tok ''c''])
     = Some (Inr (Node 20 ''[tex]'' [] [Tok ''C'']))"
  by (simp_all add: resolved_root_def directive_path_def is_named_def arg_filename_def
        check_filename_def endswith_def path_join_def startswith_def slash_def demo_open
        lift_res_def demo_resolve_b demo_resolve_c del: resolve_imports.simps)

lemma demo_spliced:
  "spliced demo_lib demo_files (Suc 0) [] (Node 2 ''input'' [PStr ''b''] [Tok ''b''])
     = [Node 10 ''[tex]'' [] [Tok ''B'']]"
  "spliced demo_lib demo_files (Suc 0) [] (Node 3 ''include'' [PStr ''c''] [Tok ''c'']) = [Tok ''C'']"
  by (simp_all add: spliced_def demo_roots is_named_def)

lemma demo_dirname: "dirname ''main.tex'' = []"
  by (simp add: dirname_def slash_def)

lemma demo_ids:
  "node_ids (Node 0 ''[tex]'' []
                [Node 4 ''section'' [PStr ''A''] [Tok ''A''],
                 Node 2 ''input'' [PStr ''b''] [Tok ''b''],
                 Node 3 ''include'' [PStr ''c''] [Tok ''c'']]) = [4, 2, 3]"
  "all_ids (Node 10 ''[tex]'' [] [Tok ''B'']) = [10]"
  "all_ids (Tok ''C'') = []"
  by (simp_all add: all_ids_def node_ids_def is_node_def)

lemma demo_resolvable:
  "resolvable demo_lib demo_files (Suc 0) (dirname (fst (''main.tex'', ''MAIN'')))
     (lib_parse demo_lib (snd (''main.tex'', ''MAIN'')))"
  by (simp add: resolvable_def demo_parse demo_dirname demo_ids find_all_def is_named_def
        is_directive_def is_kind_def directive_names_def demo_roots demo_spliced is_node_def)

lemma resolve_imports_splices_example:
  "resolve_imports demo_lib demo_files (Suc (Suc 0)) (''main.tex'', ''MAIN'') =
     Some (Inr (lib_parse demo_lib (clean_texfile (lib_str demo_lib
       (Node 0 ''[tex]'' []
          [Node 4 ''section'' [PStr ''A''] [Tok ''A''],
           Node 10 ''[tex]'' [] [Tok ''B''],
           Tok ''C''])))))"
  using resolve_imports_splices [OF demo_resolvable]
  by (simp add: demo_parse demo_dirname is_directive_def is_kind_def directive_names_def demo_spliced)

lemma subimport_path_raises:
  "subimport_path (Node i n a cs) = Inl (if 2 \<le> length a then TypeError else IndexError)"
  by (cases a; cases "tl a") (auto simp: subimport_path_def)

text \<open>
  C6. The \<open>subimport\<close> loop does not splice anything. It adds the two argument objects
  of the node, where the loops for \<open>import\<close>, \<open>include\<close> and \<open>input\<close> read the
  \<open>.string\<close> of the argument, and the addition raises. So a file whose parse holds a
  \<open>subimport\<close> node is not resolved at all: whatever the file system holds, resolution
  stops at the first such node with \<open>TypeError\<close> (with \<open>IndexError\<close> if the node has fewer
  than two arguments), before any other file is opened and before the loops for the other
  directives run.
\<close>

theorem resolve_imports_subimport_raises:
  assumes "find_all ''subimport'' (lib_parse L (snd file)) = d # ds"
  shows "resolve_imports L fs (Suc fuel) file =
           Some (Inl (if 2 \<le> length (nargs d) then TypeError else IndexError))"
proof -
  from assms have "d \<in> set (find_all ''subimport'' (lib_parse L (snd file)))" by simp
  then have "is_named ''subimport'' d" by (simp add: find_all_def)
  then obtain i n a cs where d: "d = Node i n a cs" by (cases d) (auto simp: is_named_def)
  have "subimport_path d = Inl (if 2 \<le> length (nargs d) then TypeError else IndexError)"
    unfolding d by (simp only: subimport_path_raises tex.sel)
  with assms show ?thesis
    by (simp add: Let_def then_res_def lift_res_def)
qed

theorem resolve_imports_subimport_raises_witness:
  "find_all ''subimport'' (lib_parse subimport_lib (snd (''main.tex'', subimport_source)))
     = [Node 1 ''subimport'' [PStr ''sec/'', PStr ''intro''] []]
   \<and> py_open subimport_files ''main.tex'' = Inr (''main.tex'', subimport_source)
   \<and> py_open subimport_files ''sec/intro.tex'' = Inr (''sec/intro.tex'', ''Introduction'')
   \<and> resolve_imports subimport_lib subimport_files (Suc (Suc 0)) (''main.tex'', subimport_source)
     = Some (Inl TypeError)"
proof -
  have p: "find_all ''subimport'' (lib_parse subimport_lib (snd (''main.tex'', subimport_source)))
     = [Node 1 ''subimport'' [PStr ''sec/'', PStr ''intro''] []]"
    by (simp add: subimport_lib_def plain_lib_def find_all_def is_named_def)
  from resolve_imports_subimport_raises [OF p, of subimport_files "Suc 0"] p
  show ?thesis by (simp add: py_open_def subimport_files_def)
qed

end
